theory Spec2Isabelle
  imports Main "HOL-Library.AList" "HOL-Library.Multiset"
begin

section \<open>JavaScript values\<close>

text \<open>
  The primitive values that the library reads out of its arguments: option values,
  consistency levels, property values of a written object. The numbers are those of an
  integer literal: \<open>PNum n\<close> is the number that the literal \<open>n\<close> denotes, which is
  \<open>n\<close> itself below \<open>2 ^ 53\<close> in magnitude and the nearest double beyond (an infinity
  from \<open>2 ^ 1024\<close> on). Numbers with a fraction and \<open>NaN\<close> are not values of the model.
\<close>

datatype prim = PUndefined | PNull | PBool bool | PNum int | PStr string

text \<open>Truthiness, as \<open>if (x)\<close> and \<open>x || y\<close> test it.\<close>

fun truthy :: "prim \<Rightarrow> bool" where
  "truthy PUndefined = False"
| "truthy PNull = False"
| "truthy (PBool b) = b"
| "truthy (PNum n) = (n \<noteq> 0)"
| "truthy (PStr s) = (s \<noteq> [])"

definition js_or :: "prim \<Rightarrow> prim \<Rightarrow> prim" where
  "js_or a b = (if truthy a then a else b)"

text \<open>A plain object: its own enumerable properties, in insertion order.\<close>

type_synonym jsobj = "(string \<times> prim) list"

text \<open>\<open>o[p]\<close>: a missing property reads as \<open>undefined\<close>.\<close>

definition get_prop :: "jsobj \<Rightarrow> string \<Rightarrow> prim" where
  "get_prop obj p = (case map_of obj p of None \<Rightarrow> PUndefined | Some v \<Rightarrow> v)"

text \<open>Decimal digits of an index, for the index names of an array or a string.\<close>

function string_of_nat :: "nat \<Rightarrow> string" where
  "string_of_nat n =
     (if n < 10 then [''0123456789'' ! n]
      else string_of_nat (n div 10) @ [''0123456789'' ! (n mod 10)])"
  by pat_completeness auto
termination
  by (relation "measure (\<lambda>n. n)") auto

declare string_of_nat.simps [simp del]

text \<open>
  \<open>'' + x\<close> on a number, as the language defines it. A non-negative integer is rounded to
  the nearest double, ties to the even mantissa; \<open>binade x\<close> is the spacing of the doubles
  at \<open>x\<close>. The digits printed are the fewest significant digits \<open>s\<close>, with an exponent
  \<open>p\<close>, such that \<open>s * 10 ^ p\<close> rounds to the same double, the nearer \<open>s\<close> of two. Up to
  21 digits they are followed by \<open>p\<close> zeros; beyond that the number is printed with an
  exponent, as in \<open>1e+21\<close>. Below \<open>2 ^ 53\<close> every integer is a double and prints as its
  decimal digits; from \<open>2 ^ 1024\<close> on a number prints as \<open>Infinity\<close>.
\<close>

function digits :: "int \<Rightarrow> string" where
  "digits x =
     (if x < 10 then [''0123456789'' ! nat x]
      else digits (x div 10) @ [''0123456789'' ! nat (x mod 10)])"
  by pat_completeness auto
termination
  by (relation "measure (\<lambda>x. nat x)") auto

declare digits.simps [simp del]

function binade :: "int \<Rightarrow> int" where
  "binade x = (if x < 2 ^ 53 then 1 else 2 * binade (x div 2))"
  by pat_completeness auto
termination
  by (relation "measure (\<lambda>x. nat x)") auto

declare binade.simps [simp del]

definition nearest_double :: "int \<Rightarrow> int" where
  "nearest_double x =
     (let q = binade x; m = x div q; r = x mod q
      in if q < 2 * r \<or> (q = 2 * r \<and> odd m) then (m + 1) * q else m * q)"

function shortest :: "int \<Rightarrow> nat \<Rightarrow> int \<times> nat" where
  "shortest x p =
     (let lo = x div 10 ^ p; hi = lo + 1;
          lo_ok = (0 < lo \<and> nearest_double (lo * 10 ^ p) = x);
          hi_ok = (nearest_double (hi * 10 ^ p) = x)
      in if lo_ok \<and> hi_ok then
           (if x - lo * 10 ^ p < hi * 10 ^ p - x then (lo, p)
            else if hi * 10 ^ p - x < x - lo * 10 ^ p then (hi, p)
            else if even lo then (lo, p) else (hi, p))
         else if lo_ok then (lo, p)
         else if hi_ok then (hi, p)
         else if p = 0 then (x, 0)
         else shortest x (p - 1))"
  by pat_completeness auto
termination
  by (relation "measure (\<lambda>(x, p). p)") auto

declare shortest.simps [simp del]

definition number_digits :: "int \<Rightarrow> string" where
  "number_digits x =
     (let (s, p) = shortest x (length (digits x));
          ds = digits s;
          n = length ds + p
      in if n \<le> 21 then ds @ replicate p (CHR ''0'')
         else (if length ds = 1 then ds else hd ds # CHR ''.'' # tl ds) @ ''e+'' @
              string_of_nat (n - 1))"

definition string_of_number :: "int \<Rightarrow> string" where
  "string_of_number i =
     (let sign = (if i < 0 then ''-'' else [])
      in if \<bar>i\<bar> < 2 ^ 53 then sign @ digits \<bar>i\<bar>
         else if 2 ^ 1024 \<le> nearest_double \<bar>i\<bar> then sign @ ''Infinity''
         else sign @ number_digits (nearest_double \<bar>i\<bar>))"

text \<open>\<open>'' + v\<close> on a primitive.\<close>

fun to_string :: "prim \<Rightarrow> string" where
  "to_string PUndefined = ''undefined''"
| "to_string PNull = ''null''"
| "to_string (PBool b) = (if b then ''true'' else ''false'')"
| "to_string (PNum n) = string_of_number n"
| "to_string (PStr s) = s"

text \<open>
  An object as \<open>for (p in x)\<close> and \<open>x[p]\<close> see it: its own enumerable properties, in the
  order in which they are visited, and after them the enumerable properties that it inherits
  along its prototype chain, nearest prototype first. \<open>for_in\<close> lists what a loop without
  a \<open>hasOwnProperty\<close> test visits, each name once with the value found first; a loop with
  the test visits \<open>own\<close>.
\<close>

datatype 'a chained = Chained (own: "(string \<times> 'a) list") (inherited: "(string \<times> 'a) list")

definition for_in :: "'a chained \<Rightarrow> (string \<times> 'a) list" where
  "for_in x = AList.clearjunk (own x @ inherited x)"

text \<open>
  A positional argument of \<open>get\<close>, \<open>count\<close> and \<open>remove\<close> after the row key: a
  primitive, an array of column names, or an options object.
\<close>

datatype jsarg = APrim prim | AArr "string list" | AObj jsobj

fun truthy_arg :: "jsarg \<Rightarrow> bool" where
  "truthy_arg (APrim p) = truthy p"
| "truthy_arg (AArr xs) = True"
| "truthy_arg (AObj ob) = True"

text \<open>\<open>args.shift()\<close>: the head and the rest; \<open>undefined\<close> on an empty array.\<close>

fun shift :: "jsarg list \<Rightarrow> jsarg \<times> jsarg list" where
  "shift [] = (APrim PUndefined, [])"
| "shift (a # as) = (a, as)"

text \<open>\<open>typeof x.slice === 'function'\<close>: strings and arrays have a \<open>slice\<close> method.\<close>

fun has_slice :: "jsarg \<Rightarrow> bool" where
  "has_slice (APrim (PStr s)) = True"
| "has_slice (AArr xs) = True"
| "has_slice a = False"

text \<open>
  \<open>columns = x.slice(); if (!(columns instanceof Array)) columns = [columns]\<close>, for a
  value that has \<open>slice\<close>.
\<close>

fun columns_of :: "jsarg \<Rightarrow> string list" where
  "columns_of (AArr xs) = xs"
| "columns_of (APrim (PStr s)) = [s]"
| "columns_of a = []"

text \<open>
  The properties that \<open>for (p in x) if (x.hasOwnProperty(p))\<close> visits, with their values:
  those of an object, the indices of an array or a string, none of another primitive.
\<close>

fun own_props :: "jsarg \<Rightarrow> jsobj" where
  "own_props (AObj ob) = ob"
| "own_props (AArr xs) = map (\<lambda>i. (string_of_nat i, PStr (xs ! i))) [0..<length xs]"
| "own_props (APrim (PStr s)) = map (\<lambda>i. (string_of_nat i, PStr [s ! i])) [0..<length s]"
| "own_props (APrim p) = []"

text \<open>\<open>x.consistencyLevel\<close> and the like on an argument.\<close>

fun arg_prop :: "jsarg \<Rightarrow> string \<Rightarrow> prim" where
  "arg_prop (AObj ob) p = get_prop ob p"
| "arg_prop a p = PUndefined"

section \<open>Wire types\<close>

text \<open>
  The request and response structures of the generated \<open>cassandra_types\<close> module, which is
  not part of the sources: each is the record of the fields the library fills in or reads.
  A \<open>ColumnOrSuperColumn\<close> carries exactly one of its two members.
\<close>

datatype column = Column (col_name: string) (col_value: string) (col_timestamp: int) (col_ttl: prim)

datatype super_column = SuperColumn (sc_name: string) (sc_columns: "column list")

datatype column_or_supercolumn = COSC_column column | COSC_super_column super_column

datatype column_parent = ColumnParent (column_family: string) (super_column: "string option")

datatype slice_predicate =
  SlicePredicate (column_names: "string list option") (slice_range: "jsobj option")

datatype key_range = KeyRange (start_key: string) (end_key: string) (kr_count: int)

datatype deletion =
  Deletion (del_timestamp: int) (del_super_column: "string option")
    (del_predicate: "slice_predicate option")

datatype mutation = Mutation_column_or_supercolumn column_or_supercolumn | Mutation_deletion deletion

datatype key_slice = KeySlice (ks_key: string) (ks_columns: "column_or_supercolumn list")

text \<open>
  The table \<open>ttypes.ConsistencyLevel\<close> of the same module: the two levels the library
  names. Their numbers are a parameter of every function that reads them.
\<close>

record ConsistencyLevel =
  ONE :: int
  QUORUM :: int

section \<open>Query argument normaliser\<close>

definition default_options :: jsobj where
  "default_options =
     [(''start'', PStr ''''), (''finish'', PStr ''''), (''reversed'', PBool False),
      (''count'', PNum 100), (''consistencyLevel'', PNull)]"

text \<open>
  \<open>for (n in src) if (src.hasOwnProperty(n)) options[n] = src[n]\<close>: an existing
  property is overwritten in place, a new one is appended.
\<close>

fun overlay :: "jsobj \<Rightarrow> jsobj \<Rightarrow> jsobj" where
  "overlay options [] = options"
| "overlay options ((n, v) # src) = overlay (AList.update n v options) src"

definition parseArgumentsForStandardCF ::
  "string \<Rightarrow> jsarg list \<Rightarrow> column_parent \<times> slice_predicate \<times> prim" where
  "parseArgumentsForStandardCF nm args =
     (let (columns_or_options, args1) = shift args in
      if truthy_arg columns_or_options then
        if has_slice columns_or_options then
          (let (opts, args2) = shift args1 in
           (ColumnParent nm None,
            SlicePredicate (Some (columns_of columns_or_options)) None,
            if truthy_arg opts then arg_prop opts ''consistencyLevel''
            else get_prop default_options ''consistencyLevel''))
        else
          (let options = overlay default_options (own_props columns_or_options) in
           (ColumnParent nm None, SlicePredicate None (Some options),
            get_prop options ''consistencyLevel''))
      else
        (ColumnParent nm None, SlicePredicate None (Some default_options),
         get_prop default_options ''consistencyLevel''))"

text \<open>\<open>x instanceof String || typeof x === 'string'\<close>.\<close>

fun is_string :: "jsarg \<Rightarrow> bool" where
  "is_string (APrim (PStr s)) = True"
| "is_string a = False"

fun string_of_arg :: "jsarg \<Rightarrow> string" where
  "string_of_arg (APrim (PStr s)) = s"
| "string_of_arg a = []"

definition parseArgumentsForSuperCF ::
  "string \<Rightarrow> jsarg list \<Rightarrow> column_parent \<times> slice_predicate \<times> prim" where
  "parseArgumentsForSuperCF nm args =
     (let (super_column_or_options, args1) = shift args in
      if truthy_arg super_column_or_options then
        if is_string super_column_or_options then
          (let sc = Some (string_of_arg super_column_or_options);
               (columns_or_options, args2) = shift args1 in
           if truthy_arg columns_or_options then
             if has_slice columns_or_options then
               (let (opts, args3) = shift args2 in
                (ColumnParent nm sc,
                 SlicePredicate (Some (columns_of columns_or_options)) None,
                 if truthy_arg opts then arg_prop opts ''consistencyLevel''
                 else get_prop default_options ''consistencyLevel''))
             else
               (let options = overlay default_options (own_props columns_or_options) in
                (ColumnParent nm sc, SlicePredicate None (Some options),
                 get_prop options ''consistencyLevel''))
           else
             (ColumnParent nm sc, SlicePredicate None (Some default_options),
              get_prop default_options ''consistencyLevel''))
        else
          (let options = overlay default_options (own_props super_column_or_options) in
           (ColumnParent nm None, SlicePredicate None (Some options),
            get_prop options ''consistencyLevel''))
      else
        (ColumnParent nm None, SlicePredicate None (Some default_options),
         get_prop default_options ''consistencyLevel''))"

section \<open>Requests and events\<close>

text \<open>
  A call made on the RPC stub (\<open>thrift_client\<close>), with the arguments the library passes.
  A user callback is named by a number; \<open>None\<close> is a call made without one.
\<close>

datatype rpc =
    Login jsobj
  | Describe_keyspace string
  | System_add_keyspace jsobj "nat option"
  | System_drop_keyspace string "nat option"
  | Multiget_slice "string list" column_parent slice_predicate prim "nat option"
  | Multiget_count "string list" column_parent slice_predicate prim "nat option"
  | Batch_mutate string string "mutation list" prim "nat option"
  | Get_range_slices column_parent slice_predicate key_range prim
  | Truncate string "nat option"

text \<open>What a function throws: a \<open>TypeError\<close> of the runtime, or an error event nobody listens to.\<close>

datatype exn = TypeError | Uncaught string

section \<open>Client\<close>

datatype client_command =
    Use string "nat option"
  | AddKeySpace jsobj "nat option"
  | DropKeySpace string "nat option"

text \<open>
  The client object from \<open>connect\<close> on (which creates \<open>ready\<close> and \<open>queue\<close>). Beside the
  fields of the source, the record holds what the object does to its surroundings and reads
  from them: \<open>sent\<close>, the calls made on the RPC stub, in order; \<open>error_listener\<close>, whether
  the application listens to the \<open>error\<close> event, and \<open>errors\<close>, the errors delivered to
  that listener; \<open>clock\<close>, the value of \<open>new Date().getTime()\<close>.
\<close>

record Client =
  host :: string
  port :: "string option"
  defaultCL_read :: prim
  defaultCL_write :: prim
  timestampMultiplier :: "int option"
  keyspace :: "string option"
  credential :: "jsobj option"
  column_families :: "(string \<times> jsobj) list option"
  ready :: bool
  queue :: "client_command list"
  sent :: "rpc list"
  error_listener :: bool
  errors :: "string list"
  clock :: int

text \<open>
  \<open>emit('error', e)\<close> of the runtime's event emitter: the listener is called, and without
  a listener the error is thrown.
\<close>

definition emit_error :: "string \<Rightarrow> Client \<Rightarrow> exn + Client" where
  "emit_error e c =
     (if error_listener c then Inr (c\<lparr>errors := errors c @ [e]\<rparr>) else Inl (Uncaught e))"

definition Client_use :: "string \<Rightarrow> nat option \<Rightarrow> Client \<Rightarrow> Client" where
  "Client_use ks callback c =
     (if \<not> ready c then c\<lparr>queue := queue c @ [Use ks callback]\<rparr>
      else c\<lparr>keyspace := Some ks, sent := sent c @ [Describe_keyspace ks]\<rparr>)"

definition Client_addKeySpace :: "jsobj \<Rightarrow> nat option \<Rightarrow> Client \<Rightarrow> Client" where
  "Client_addKeySpace ksdef callback c =
     (if \<not> ready c then c\<lparr>queue := queue c @ [AddKeySpace ksdef callback]\<rparr>
      else c\<lparr>sent := sent c @ [System_add_keyspace ksdef callback]\<rparr>)"

definition Client_dropKeySpace :: "string \<Rightarrow> nat option \<Rightarrow> Client \<Rightarrow> Client" where
  "Client_dropKeySpace ks callback c =
     (if \<not> ready c then c\<lparr>queue := queue c @ [DropKeySpace ks callback]\<rparr>
      else c\<lparr>sent := sent c @ [System_drop_keyspace ks callback]\<rparr>)"

text \<open>\<open>next[0].apply(this, next[1])\<close>: the queued method, called again with its arguments.\<close>

fun Client_apply :: "client_command \<Rightarrow> Client \<Rightarrow> Client" where
  "Client_apply (Use ks callback) c = Client_use ks callback c"
| "Client_apply (AddKeySpace ksdef callback) c = Client_addKeySpace ksdef callback c"
| "Client_apply (DropKeySpace ks callback) c = Client_dropKeySpace ks callback c"

function Client_dispatch :: "Client \<Rightarrow> Client" where
  "Client_dispatch c =
     (if ready c \<and> length (queue c) > 0 then
        Client_dispatch (Client_apply (hd (queue c)) (c\<lparr>queue := tl (queue c)\<rparr>))
      else c)"
  by pat_completeness auto
termination
proof (relation "measure (\<lambda>c. length (queue c))")
  show "wf (measure (\<lambda>c. length (queue c)))" by simp
next
  fix c :: Client
  assume a: "ready c \<and> 0 < length (queue c)"
  have "queue (Client_apply cmd (c\<lparr>queue := tl (queue c)\<rparr>)) = tl (queue c)" for cmd
    using a by (cases cmd) (simp_all add: Client_use_def Client_addKeySpace_def Client_dropKeySpace_def)
  with a show "(Client_apply (hd (queue c)) (c\<lparr>queue := tl (queue c)\<rparr>), c)
      \<in> measure (\<lambda>c. length (queue c))"
    by (cases "queue c") simp_all
qed

declare Client_dispatch.simps [simp del]

text \<open>
  \<open>new Client(host, timestampMultiplier)\<close> followed by \<open>connect\<close>, whose first argument is
  the keyspace when it is a string and the credential otherwise. A keyspace given here is
  selected by a call of \<open>use\<close>, which the client, not yet ready, queues; the callback
  passed there is the library's own, and \<open>use\<close> never calls its callback.
\<close>

definition Client_connect ::
  "ConsistencyLevel \<Rightarrow> string \<Rightarrow> int option \<Rightarrow> bool \<Rightarrow> int \<Rightarrow> jsarg \<Rightarrow> jsobj option \<Rightarrow> Client" where
  "Client_connect CL hostport multiplier listening now keyspace_or_credential cred =
     (let c = \<lparr> host = takeWhile (\<lambda>ch. ch \<noteq> CHR '':'') hostport,
                port = (if CHR '':'' \<in> set hostport
                        then Some (takeWhile (\<lambda>ch. ch \<noteq> CHR '':'')
                                     (tl (dropWhile (\<lambda>ch. ch \<noteq> CHR '':'') hostport)))
                        else None),
                defaultCL_read = PNum (QUORUM CL),
                defaultCL_write = PNum (QUORUM CL),
                timestampMultiplier = multiplier,
                keyspace = (if is_string keyspace_or_credential
                            then Some (string_of_arg keyspace_or_credential) else None),
                credential = (if is_string keyspace_or_credential then cred
                              else (case keyspace_or_credential of AObj ob \<Rightarrow> Some ob | _ \<Rightarrow> None)),
                column_families = None,
                ready = False,
                queue = [],
                sent = [],
                error_listener = listening,
                errors = [],
                clock = now \<rparr>
      in case keyspace c of
           Some ks \<Rightarrow> if ks \<noteq> [] then Client_use ks None c else c
         | None \<Rightarrow> c)"

text \<open>The handler of the connection's \<open>connect\<close> event, and the callback of \<open>login\<close>.\<close>

definition Client_on_login :: "string option \<Rightarrow> Client \<Rightarrow> exn + Client" where
  "Client_on_login error c =
     (case error of
        Some e \<Rightarrow> emit_error e c
      | None \<Rightarrow> Inr (Client_dispatch (c\<lparr>ready := True\<rparr>)))"

definition Client_on_connect :: "string option \<Rightarrow> Client \<Rightarrow> exn + Client" where
  "Client_on_connect error c =
     (case error of
        Some e \<Rightarrow> emit_error e c
      | None \<Rightarrow>
          (case credential c of
             Some cr \<Rightarrow> Inr (c\<lparr>sent := sent c @ [Login cr]\<rparr>)
           | None \<Rightarrow> Inr (Client_dispatch (c\<lparr>ready := True\<rparr>))))"

text \<open>
  \<open>consistencyLevel\<close>: without an argument the getter; with one the setter, which reads
  \<open>read\<close> and \<open>write\<close> off its argument and throws on \<open>null\<close> and \<open>undefined\<close>.
\<close>

definition Client_consistencyLevel_get :: "Client \<Rightarrow> prim \<times> prim" where
  "Client_consistencyLevel_get c = (defaultCL_read c, defaultCL_write c)"

definition Client_consistencyLevel :: "ConsistencyLevel \<Rightarrow> jsarg \<Rightarrow> Client \<Rightarrow> exn + Client" where
  "Client_consistencyLevel CL newCL c =
     (if newCL = APrim PUndefined \<or> newCL = APrim PNull then Inl TypeError
      else Inr (c\<lparr>defaultCL_read := js_or (arg_prop newCL ''read'') (PNum (QUORUM CL)),
                  defaultCL_write := js_or (arg_prop newCL ''write'') (PNum (QUORUM CL))\<rparr>))"

section \<open>ColumnFamily\<close>

text \<open>
  The arguments of the public methods. A row key argument of \<open>get\<close> and \<open>count\<close> is one
  key or an array of keys; the object written by \<open>set\<close> comes with its prototype chain,
  and a property of it is a primitive or, for a super column, an object of primitives with
  a chain of its own; the options of \<open>enumerate\<close> are \<open>stride\<close> and \<open>delay\<close>, both
  numbers, and whatever else the caller put there.
\<close>

datatype keys_arg = Key string | Keys "string list"

datatype setval = SPrim prim | SObj "prim chained"

datatype enum_options =
  EnumOptions (stride: "int option") (delay: "int option") (other: jsobj)

text \<open>
  What the per-row callback of \<open>enumerate\<close> does with the continuation it is given: calls
  it without an error, calls it with one, or does not call it.
\<close>

datatype ack = Continue | Fail string | Silent

type_synonym row_callback = "string \<Rightarrow> (string \<times> string) list \<Rightarrow> ack"

datatype command =
    Get keys_arg "jsarg list" "nat option"
  | Count keys_arg "jsarg list" "nat option"
  | Set string "setval chained" jsobj "nat option"
  | Remove string "jsarg list" "nat option"
  | Enumerate "string list option" "enum_options option" row_callback
  | Truncate "nat option"

text \<open>
  The handle. \<open>client\<close> (the source's \<open>client_\<close>) is the client the handle was made
  for; \<open>props\<close> are the properties copied from the table's definition. The multiplier
  is an integer, and a time stamp, the product of the clock and the multiplier, is that
  product exactly, as it is in the source's doubles while it stays below \<open>2 ^ 53\<close>.
\<close>

record ColumnFamily =
  name :: string
  cf_queue :: "command list"
  cf_ready :: bool
  client :: Client
  cf_timestampMultiplier :: int
  props :: jsobj
  isSuper :: bool

definition thrift_call :: "rpc \<Rightarrow> ColumnFamily \<Rightarrow> ColumnFamily" where
  "thrift_call r cf = cf\<lparr>client := (client cf)\<lparr>sent := sent (client cf) @ [r]\<rparr>\<rparr>"

fun keys_of :: "keys_arg \<Rightarrow> string list" where
  "keys_of (Key k) = [k]"
| "keys_of (Keys ks) = ks"

definition method_args :: "ColumnFamily \<Rightarrow> jsarg list \<Rightarrow> column_parent \<times> slice_predicate \<times> prim" where
  "method_args cf args =
     (if isSuper cf then parseArgumentsForSuperCF (name cf) args
      else parseArgumentsForStandardCF (name cf) args)"

definition ColumnFamily_get ::
  "keys_arg \<Rightarrow> jsarg list \<Rightarrow> nat option \<Rightarrow> ColumnFamily \<Rightarrow> ColumnFamily" where
  "ColumnFamily_get keys args callback cf =
     (if \<not> cf_ready cf then cf\<lparr>cf_queue := cf_queue cf @ [Get keys args callback]\<rparr>
      else
        (let (column_parent, predicate, cl0) = method_args cf args;
             cl = js_or cl0 (defaultCL_read (client cf))
         in thrift_call (Multiget_slice (keys_of keys) column_parent predicate cl callback) cf))"

definition ColumnFamily_count ::
  "keys_arg \<Rightarrow> jsarg list \<Rightarrow> nat option \<Rightarrow> ColumnFamily \<Rightarrow> ColumnFamily" where
  "ColumnFamily_count keys args callback cf =
     (if \<not> cf_ready cf then cf\<lparr>cf_queue := cf_queue cf @ [Count keys args callback]\<rparr>
      else
        (let (column_parent, predicate, cl0) = method_args cf args;
             cl = js_or cl0 (defaultCL_read (client cf))
         in thrift_call (Multiget_count (keys_of keys) column_parent predicate cl callback) cf))"

text \<open>\<open>'' + v\<close> on a property value; an object prints as \<open>[object Object]\<close>.\<close>

fun setval_to_string :: "setval \<Rightarrow> string" where
  "setval_to_string (SPrim p) = to_string p"
| "setval_to_string (SObj ob) = ''[object Object]''"

text \<open>
  The pairs \<open>(col, '' + value[col])\<close> that \<open>for (var col in value)\<close> visits; the loop has
  no \<open>hasOwnProperty\<close> test.
\<close>

fun subcolumns :: "setval \<Rightarrow> (string \<times> string) list" where
  "subcolumns (SObj ob) = map (\<lambda>(col, v). (col, to_string v)) (for_in ob)"
| "subcolumns (SPrim (PStr s)) = map (\<lambda>i. (string_of_nat i, [s ! i])) [0..<length s]"
| "subcolumns (SPrim p) = []"

text \<open>
  The two loops of \<open>set\<close> over the written object. The one for a super table tests
  \<open>values.hasOwnProperty(prop)\<close>; the one for a flat table has no such test.
\<close>

definition set_mutations ::
  "bool \<Rightarrow> setval chained \<Rightarrow> int \<Rightarrow> prim \<Rightarrow> mutation list" where
  "set_mutations super values ts ttl =
     (if super then
        map (\<lambda>(prop, value).
               Mutation_column_or_supercolumn
                 (COSC_super_column
                    (SuperColumn prop (map (\<lambda>(col, s). Column col s ts ttl) (subcolumns value)))))
            (own values)
      else
        map (\<lambda>(prop, value).
               Mutation_column_or_supercolumn
                 (COSC_column (Column prop (setval_to_string value) ts ttl)))
            (for_in values))"

definition ColumnFamily_set ::
  "string \<Rightarrow> setval chained \<Rightarrow> jsobj \<Rightarrow> nat option \<Rightarrow> ColumnFamily \<Rightarrow> ColumnFamily" where
  "ColumnFamily_set key values options callback cf =
     (if \<not> cf_ready cf then cf\<lparr>cf_queue := cf_queue cf @ [Set key values options callback]\<rparr>
      else
        (let cl = js_or (get_prop options ''consistencyLevel'') (defaultCL_write (client cf));
             ts = clock (client cf) * cf_timestampMultiplier cf;
             mutations = set_mutations (isSuper cf) values ts (js_or (get_prop options ''ttl'') PNull)
         in thrift_call (Batch_mutate key (name cf) mutations cl callback) cf))"

definition ColumnFamily_remove ::
  "string \<Rightarrow> jsarg list \<Rightarrow> nat option \<Rightarrow> ColumnFamily \<Rightarrow> ColumnFamily" where
  "ColumnFamily_remove key args callback cf =
     (if \<not> cf_ready cf then cf\<lparr>cf_queue := cf_queue cf @ [Remove key args callback]\<rparr>
      else
        (let (column_parent, predicate, cl0) = method_args cf args;
             cl = js_or cl0 (defaultCL_write (client cf));
             ts = clock (client cf) * cf_timestampMultiplier cf;
             mutations =
               [Mutation_deletion
                  (Deletion ts (super_column column_parent)
                     (if column_names predicate \<noteq> None then Some predicate else None))]
         in thrift_call (Batch_mutate key (name cf) mutations cl callback) cf))"

text \<open>
  The variables that the callbacks of \<open>enumerate\<close> close over, and the range request built
  from them for a start key.
\<close>

record enum_closure =
  e_column_parent :: column_parent
  e_slice_predicate :: slice_predicate
  e_stride :: int
  e_callback :: row_callback

definition enum_closure_of ::
  "ColumnFamily \<Rightarrow> string list option \<Rightarrow> enum_options option \<Rightarrow> row_callback \<Rightarrow> enum_closure" where
  "enum_closure_of cf cols opts callback =
     (let column_names = (case cols of Some xs \<Rightarrow> xs | None \<Rightarrow> []);
          options = (case opts of Some ob \<Rightarrow> ob | None \<Rightarrow> EnumOptions None None [])
      in \<lparr> e_column_parent = ColumnParent (name cf) None,
           e_slice_predicate =
             (if 0 < length column_names then SlicePredicate (Some column_names) None
              else SlicePredicate None
                     (Some [(''consistencyLevel'', PNull), (''count'', PNum 100),
                            (''finish'', PStr ''''), (''reversed'', PBool False),
                            (''start'', PStr '''')])),
           e_stride = (case stride options of
                         Some n \<Rightarrow> if n \<noteq> 0 then n else 100
                       | None \<Rightarrow> 100),
           e_callback = callback \<rparr>)"

definition range_request :: "ConsistencyLevel \<Rightarrow> enum_closure \<Rightarrow> string \<Rightarrow> rpc" where
  "range_request CL e start =
     Get_range_slices (e_column_parent e) (e_slice_predicate e)
       (KeyRange start '''' (e_stride e)) (PNum (ONE CL))"

definition ColumnFamily_enumerate ::
  "ConsistencyLevel \<Rightarrow> string list option \<Rightarrow> enum_options option \<Rightarrow> row_callback
     \<Rightarrow> ColumnFamily \<Rightarrow> ColumnFamily" where
  "ColumnFamily_enumerate CL cols opts callback cf =
     (if \<not> cf_ready cf then cf\<lparr>cf_queue := cf_queue cf @ [Enumerate cols opts callback]\<rparr>
      else thrift_call (range_request CL (enum_closure_of cf cols opts callback) '''') cf)"

definition ColumnFamily_truncate :: "nat option \<Rightarrow> ColumnFamily \<Rightarrow> ColumnFamily" where
  "ColumnFamily_truncate callback cf =
     (if \<not> cf_ready cf then cf\<lparr>cf_queue := cf_queue cf @ [Truncate callback]\<rparr>
      else thrift_call (rpc.Truncate (name cf) callback) cf)"

text \<open>\<open>slice\<close> has no readiness check: it only emits an error on the client.\<close>

definition ColumnFamily_slice :: "ColumnFamily \<Rightarrow> exn + ColumnFamily" where
  "ColumnFamily_slice cf =
     (case emit_error ''slice(get_range_slices, get_indexed_slices) not supported.'' (client cf) of
        Inl e \<Rightarrow> Inl e
      | Inr c \<Rightarrow> Inr (cf\<lparr>client := c\<rparr>))"

text \<open>\<open>next[0].apply(this, next[1])\<close>: the queued method, called again with its arguments.\<close>

fun ColumnFamily_apply :: "ConsistencyLevel \<Rightarrow> command \<Rightarrow> ColumnFamily \<Rightarrow> ColumnFamily" where
  "ColumnFamily_apply CL (Get keys args callback) cf = ColumnFamily_get keys args callback cf"
| "ColumnFamily_apply CL (Count keys args callback) cf = ColumnFamily_count keys args callback cf"
| "ColumnFamily_apply CL (Set key values options callback) cf =
     ColumnFamily_set key values options callback cf"
| "ColumnFamily_apply CL (Remove key args callback) cf = ColumnFamily_remove key args callback cf"
| "ColumnFamily_apply CL (Enumerate cols opts callback) cf =
     ColumnFamily_enumerate CL cols opts callback cf"
| "ColumnFamily_apply CL (Truncate callback) cf = ColumnFamily_truncate callback cf"

function ColumnFamily_dispatch :: "ConsistencyLevel \<Rightarrow> ColumnFamily \<Rightarrow> ColumnFamily" where
  "ColumnFamily_dispatch CL cf =
     (if cf_ready cf then
        if length (cf_queue cf) > 0 then
          ColumnFamily_dispatch CL
            (ColumnFamily_apply CL (hd (cf_queue cf)) (cf\<lparr>cf_queue := tl (cf_queue cf)\<rparr>))
        else cf
      else cf)"
  by pat_completeness auto
termination
proof (relation "measure (\<lambda>(CL, cf). length (cf_queue cf))")
  show "wf (measure (\<lambda>(CL, cf). length (cf_queue cf)))" by simp
next
  fix CL :: ConsistencyLevel and cf :: ColumnFamily
  assume r: "cf_ready cf" and q: "0 < length (cf_queue cf)"
  have "cf_queue (ColumnFamily_apply CL cmd (cf\<lparr>cf_queue := tl (cf_queue cf)\<rparr>)) = tl (cf_queue cf)"
    for cmd
    using r
    by (cases cmd)
      (simp_all add: ColumnFamily_get_def ColumnFamily_count_def ColumnFamily_set_def
        ColumnFamily_remove_def ColumnFamily_enumerate_def ColumnFamily_truncate_def
        thrift_call_def Let_def split: prod.splits)
  with q show "((CL, ColumnFamily_apply CL (hd (cf_queue cf)) (cf\<lparr>cf_queue := tl (cf_queue cf)\<rparr>)),
        CL, cf) \<in> measure (\<lambda>(CL, cf). length (cf_queue cf))"
    by (cases "cf_queue cf") simp_all
qed

declare ColumnFamily_dispatch.simps [simp del]

text \<open>
  The listener that the constructor puts on the client's \<open>keyspaceSet\<close> event, called with
  the published table definitions (\<open>undefined\<close> while no keyspace has been described).
\<close>

definition ColumnFamily_on_keyspaceSet ::
  "ConsistencyLevel \<Rightarrow> (string \<times> jsobj) list option \<Rightarrow> ColumnFamily \<Rightarrow> exn + ColumnFamily" where
  "ColumnFamily_on_keyspaceSet CL cfdef self =
     (case cfdef of
        None \<Rightarrow> Inl TypeError
      | Some defs \<Rightarrow>
          (let cf = map_of defs (name self) in
           case (if cf = None
                 then emit_error (''Column Family '' @ name self @ '' does not exist.'') (client self)
                 else Inr (client self)) of
             Inl e \<Rightarrow> Inl e
           | Inr c \<Rightarrow>
               (let self1 = self\<lparr>client := c,
                                 props := overlay (props self) (case cf of Some d \<Rightarrow> d | None \<Rightarrow> [])\<rparr>;
                    self2 = self1\<lparr>isSuper := (get_prop (props self1) ''column_type'' = PStr ''Super''),
                                  cf_ready := True\<rparr>
                in Inr (ColumnFamily_dispatch CL self2))))"

text \<open>\<open>x || y\<close> on numbers that may be missing.\<close>

definition num_or :: "int option \<Rightarrow> int option \<Rightarrow> int option" where
  "num_or a b = (if a \<noteq> None \<and> a \<noteq> Some 0 then a else b)"

text \<open>
  The constructor, as \<open>getColumnFamily\<close> calls it for a name it has no handle for: when the
  client is ready already, the handle's listener runs at once on the client's definitions.
\<close>

definition ColumnFamily_new ::
  "ConsistencyLevel \<Rightarrow> Client \<Rightarrow> string \<Rightarrow> int option \<Rightarrow> exn + ColumnFamily" where
  "ColumnFamily_new CL c nm multiplier =
     (let self = \<lparr> name = nm, cf_queue = [], cf_ready = False, client = c,
                   cf_timestampMultiplier = (case num_or multiplier (Some 1) of Some m \<Rightarrow> m | None \<Rightarrow> 1),
                   props = [], isSuper = False \<rparr>
      in if ready c then ColumnFamily_on_keyspaceSet CL (column_families c) self
         else Inr self)"

definition Client_getColumnFamily ::
  "ConsistencyLevel \<Rightarrow> string \<Rightarrow> int option \<Rightarrow> Client \<Rightarrow> exn + ColumnFamily" where
  "Client_getColumnFamily CL nm multiplier c =
     ColumnFamily_new CL c nm (num_or multiplier (timestampMultiplier c))"

section \<open>Response callbacks\<close>

text \<open>
  The values handed to a user callback: \<open>undefined\<close>, a column value, a column count, or
  an object built by assignments \<open>obj[k] = v\<close>.
\<close>

datatype jsv = VUndefined | VStr string | VNum int | VObj "(string \<times> jsv) list"

text \<open>\<open>obj[k]\<close> on a built object.\<close>

definition js_index :: "(string \<times> jsv) list \<Rightarrow> string \<Rightarrow> jsv" where
  "js_index obj k = (case map_of obj k of None \<Rightarrow> VUndefined | Some v \<Rightarrow> v)"

text \<open>
  An invocation \<open>callback(error, result)\<close> of the user callback with that number; a missing
  second argument is \<open>undefined\<close>.
\<close>

datatype call = Called nat "string option" jsv

text \<open>
  The inner loops of the callback of \<open>get\<close>. Both run \<open>while (i--)\<close>, from the last
  element to the first.
\<close>

definition sub_columns_object :: "column list \<Rightarrow> (string \<times> jsv) list" where
  "sub_columns_object cols =
     fold (\<lambda>sub_col ob. AList.update (col_name sub_col) (VStr (col_value sub_col)) ob) (rev cols) []"

fun row_step :: "column_or_supercolumn \<Rightarrow> (string \<times> jsv) list \<Rightarrow> (string \<times> jsv) list" where
  "row_step (COSC_super_column col) ob =
     AList.update (sc_name col) (VObj (sub_columns_object (sc_columns col))) ob"
| "row_step (COSC_column col) ob = AList.update (col_name col) (VStr (col_value col)) ob"

definition row_object :: "column_or_supercolumn list \<Rightarrow> (string \<times> jsv) list" where
  "row_object cols = fold row_step (rev cols) []"

text \<open>The outer loop, \<open>for (key in res)\<close>; \<open>res\<close> is missing when the call failed.\<close>

definition get_object ::
  "(string \<times> column_or_supercolumn list) list option \<Rightarrow> (string \<times> jsv) list" where
  "get_object res =
     (case res of
        None \<Rightarrow> []
      | Some rows \<Rightarrow> fold (\<lambda>(key, cols) obj. AList.update key (VObj (row_object cols)) obj) rows [])"

text \<open>
  The callback that \<open>get\<close> passes to \<open>multiget_slice\<close>, for the keys and the user callback
  of the call: the invocations of the user callback, in order. Without a user callback the
  first invocation is a \<open>TypeError\<close>.
\<close>

definition get_callback ::
  "string list \<Rightarrow> nat option \<Rightarrow> string option
     \<Rightarrow> (string \<times> column_or_supercolumn list) list option \<Rightarrow> exn + call list" where
  "get_callback keys callback error res =
     (case callback of
        None \<Rightarrow> Inl TypeError
      | Some cb \<Rightarrow>
          (let first = (if error \<noteq> None then [Called cb error VUndefined] else []);
               obj = get_object res;
               result = (if length keys = 1 then js_index obj (hd keys) else VObj obj)
           in Inr (first @ [Called cb error result])))"

definition count_object :: "(string \<times> int) list option \<Rightarrow> (string \<times> jsv) list" where
  "count_object res =
     (case res of
        None \<Rightarrow> []
      | Some counts \<Rightarrow> fold (\<lambda>(key, n) obj. AList.update key (VNum n) obj) counts [])"

text \<open>
  The callback that \<open>count\<close> passes to \<open>multiget_count\<close>. In its error branch \<open>obj\<close> is
  declared further down and not yet assigned.
\<close>

definition count_callback ::
  "string list \<Rightarrow> nat option \<Rightarrow> string option \<Rightarrow> (string \<times> int) list option \<Rightarrow> exn + call list" where
  "count_callback keys callback error res =
     (case callback of
        None \<Rightarrow> Inl TypeError
      | Some cb \<Rightarrow>
          (let first = (if error \<noteq> None then [Called cb error VUndefined] else []);
               obj = count_object res;
               result = (if length keys = 1 then js_index obj (hd keys) else VObj obj)
           in Inr (first @ [Called cb error result])))"

section \<open>Range enumerator\<close>

text \<open>
  What the callbacks of \<open>enumerate\<close> do, in order: call the per-row callback with a key and
  its columns, call the completion callback, call the error callback, schedule the next range
  request with \<open>process.nextTick\<close>, or throw.
\<close>

datatype enum_event =
    Row_callback string "(string \<times> string) list"
  | Done_callback
  | Errback string
  | Next_tick rpc
  | Thrown exn

text \<open>
  \<open>row.columns.forEach(function(column) { columns[column.column.name] = column.column.value })\<close>:
  on a super column \<open>column.column\<close> is \<open>null\<close>.
\<close>

fun enum_columns ::
  "column_or_supercolumn list \<Rightarrow> (string \<times> string) list \<Rightarrow> exn + (string \<times> string) list" where
  "enum_columns [] columns = Inr columns"
| "enum_columns (COSC_column c # cs) columns =
     enum_columns cs (AList.update (col_name c) (col_value c) columns)"
| "enum_columns (COSC_super_column sc # cs) columns = Inl TypeError"

function rowback :: "ConsistencyLevel \<Rightarrow> enum_closure \<Rightarrow> key_slice list \<Rightarrow> nat \<Rightarrow> enum_event list" where
  "rowback CL e rows i =
     (if length rows \<le> i then
        (if e_stride e > int (length rows) then [Done_callback]
         else [Errback ''unexected undefined row''])
      else if e_stride e - 1 = int i then
        [Next_tick (range_request CL e (ks_key (rows ! i)))]
      else
        (case enum_columns (ks_columns (rows ! i)) [] of
           Inl x \<Rightarrow> [Thrown x]
         | Inr columns \<Rightarrow>
             Row_callback (ks_key (rows ! i)) columns #
               (case e_callback e (ks_key (rows ! i)) columns of
                  Fail error \<Rightarrow> [Errback error]
                | Continue \<Rightarrow> rowback CL e rows (i + 1)
                | Silent \<Rightarrow> [])))"
  by pat_completeness auto
termination
  by (relation "measure (\<lambda>(CL, e, rows, i). length rows - i)") auto

declare rowback.simps [simp del]

definition get_range_slices_callback ::
  "ConsistencyLevel \<Rightarrow> enum_closure \<Rightarrow> string option \<Rightarrow> key_slice list \<Rightarrow> enum_event list" where
  "get_range_slices_callback CL e error rows =
     (case error of
        Some er \<Rightarrow> [Errback er]
      | None \<Rightarrow> rowback CL e rows 0)"

text \<open>
  Modelled from the spec: the store behind \<open>getRangeSlices(selectorScope, predicate,
  keyRange{startKey,endKey,count}, consistency) -> rows\<close> of the RPC gateway, which is not
  part of the sources. A table is the list of its rows in the store's key order; a range
  from the empty key starts at the first row, a range from another key starts at the row
  with that key, and at most \<open>count\<close> rows come back.
\<close>

fun get_range_slices :: "key_slice list \<Rightarrow> rpc \<Rightarrow> key_slice list" where
  "get_range_slices tbl (Get_range_slices cp pred kr cl) =
     take (nat (kr_count kr))
       (if start_key kr = [] then tbl else dropWhile (\<lambda>r. ks_key r \<noteq> start_key kr) tbl)"
| "get_range_slices tbl r = []"

text \<open>The request that a page's events end with, if they end with one.\<close>

fun next_request :: "enum_event list \<Rightarrow> rpc option" where
  "next_request [] = None"
| "next_request [Next_tick r] = Some r"
| "next_request [ev] = None"
| "next_request (ev # evs) = next_request evs"

text \<open>
  A whole enumeration against a table: each request is answered by the store without an
  error, the answer goes to \<open>get_range_slices_callback\<close>, and a scheduled request is the
  next one to be answered. The result is every event of the run, in order; an enumeration
  that never stops has none.
\<close>

partial_function (option) enumerate_run ::
  "ConsistencyLevel \<Rightarrow> enum_closure \<Rightarrow> key_slice list \<Rightarrow> rpc \<Rightarrow> enum_event list
     \<Rightarrow> enum_event list option" where
  "enumerate_run CL e tbl req acc =
     (let evs = get_range_slices_callback CL e None (get_range_slices tbl req) in
      case next_request evs of
        Some req' \<Rightarrow> enumerate_run CL e tbl req' (acc @ evs)
      | None \<Rightarrow> Some (acc @ evs))"

section \<open>Vocabulary of the properties\<close>

text \<open>The consistency level that a request carries, for the requests that carry one.\<close>

definition rpc_level :: "rpc \<Rightarrow> prim option" where
  "rpc_level r =
     (case r of
        Multiget_slice ks cp pred cl cb \<Rightarrow> Some cl
      | Multiget_count ks cp pred cl cb \<Rightarrow> Some cl
      | Batch_mutate k nm ms cl cb \<Rightarrow> Some cl
      | Get_range_slices cp pred kr cl \<Rightarrow> Some cl
      | _ \<Rightarrow> None)"

text \<open>
  A history of calls of the consistency setter on a client; a call that throws leaves the
  client as it was.
\<close>

definition setter_calls :: "ConsistencyLevel \<Rightarrow> jsarg list \<Rightarrow> Client \<Rightarrow> Client" where
  "setter_calls CL news c =
     fold (\<lambda>newCL c. case Client_consistencyLevel CL newCL c of Inr c' \<Rightarrow> c' | Inl x \<Rightarrow> c) news c"

text \<open>The calls on the RPC stub that took a handle from one state to a later one.\<close>

definition calls_made :: "ColumnFamily \<Rightarrow> ColumnFamily \<Rightarrow> rpc list" where
  "calls_made cf cf' = drop (length (sent (client cf))) (sent (client cf'))"

text \<open>The range requests scheduled among the events of an enumeration.\<close>

fun requests_of :: "enum_event list \<Rightarrow> rpc list" where
  "requests_of [] = []"
| "requests_of (Next_tick r # evs) = r # requests_of evs"
| "requests_of (ev # evs) = requests_of evs"

text \<open>The name of a column, or of a super column, of a response row.\<close>

fun cosc_name :: "column_or_supercolumn \<Rightarrow> string" where
  "cosc_name (COSC_column c) = col_name c"
| "cosc_name (COSC_super_column sc) = sc_name sc"

text \<open>
  The arguments that a caller passes after the row key to \<open>get\<close>, \<open>count\<close> and \<open>remove\<close>,
  in the order the methods document: a super column name, column names, options, each of
  which may be left out. Column names are an array of names or one name; the level that the
  caller supplies is the \<open>consistencyLevel\<close> of the options.
\<close>

definition call_args :: "string option \<Rightarrow> jsarg option \<Rightarrow> jsobj option \<Rightarrow> jsarg list" where
  "call_args sc names opts =
     (case sc of Some s \<Rightarrow> [APrim (PStr s)] | None \<Rightarrow> []) @
     (case names of Some a \<Rightarrow> [a] | None \<Rightarrow> []) @
     (case opts of Some ob \<Rightarrow> [AObj ob] | None \<Rightarrow> [])"

fun is_names :: "jsarg \<Rightarrow> bool" where
  "is_names (AArr xs) = True"
| "is_names (APrim (PStr s)) = (s \<noteq> [])"
| "is_names a = False"

definition supplied_level :: "jsobj option \<Rightarrow> prim" where
  "supplied_level opts =
     (case opts of Some ob \<Rightarrow> get_prop ob ''consistencyLevel'' | None \<Rightarrow> PUndefined)"

text \<open>
  The columns object that the enumerator builds for a row of flat columns; the rows handed
  to the per-row callback among the events of an enumeration, in order; and the events that
  end an enumeration: a call of the completion callback or of the error callback, or a
  throw.
\<close>

definition the_columns :: "key_slice \<Rightarrow> (string \<times> string) list" where
  "the_columns r = (case enum_columns (ks_columns r) [] of Inr columns \<Rightarrow> columns | Inl x \<Rightarrow> [])"

fun delivered :: "enum_event list \<Rightarrow> (string \<times> (string \<times> string) list) list" where
  "delivered [] = []"
| "delivered (Row_callback k columns # evs) = (k, columns) # delivered evs"
| "delivered (ev # evs) = delivered evs"

fun outcomes :: "enum_event list \<Rightarrow> enum_event list" where
  "outcomes [] = []"
| "outcomes (Row_callback k columns # evs) = outcomes evs"
| "outcomes (Next_tick r # evs) = outcomes evs"
| "outcomes (ev # evs) = ev # outcomes evs"

text \<open>
  The entry that a column, or a super column, of a response row contributes to the object
  built for the row, and the columns that a mutation writes.
\<close>

fun cosc_entry :: "column_or_supercolumn \<Rightarrow> string \<times> jsv" where
  "cosc_entry (COSC_column c) = (col_name c, VStr (col_value c))"
| "cosc_entry (COSC_super_column sc) = (sc_name sc, VObj (sub_columns_object (sc_columns sc)))"

fun mutation_columns :: "mutation \<Rightarrow> column_or_supercolumn list" where
  "mutation_columns (Mutation_column_or_supercolumn c) = [c]"
| "mutation_columns (Mutation_deletion d) = []"

text \<open>
  The call on the RPC stub that a command makes when its handle is ready, and the one that
  a command of the client makes.
\<close>

definition ColumnFamily_request :: "ConsistencyLevel \<Rightarrow> ColumnFamily \<Rightarrow> command \<Rightarrow> rpc" where
  "ColumnFamily_request CL cf cmd =
     last (sent (client (ColumnFamily_apply CL cmd (cf\<lparr>cf_ready := True\<rparr>))))"

fun Client_request :: "client_command \<Rightarrow> rpc" where
  "Client_request (Use ks callback) = Describe_keyspace ks"
| "Client_request (AddKeySpace ksdef callback) = System_add_keyspace ksdef callback"
| "Client_request (DropKeySpace ks callback) = System_drop_keyspace ks callback"


text \<open>
  The handle as its listener makes it when the table's definition arrives, before the queue
  is drained.
\<close>

definition made_ready :: "ColumnFamily \<Rightarrow> jsobj \<Rightarrow> ColumnFamily" where
  "made_ready cf d =
     cf\<lparr>props := overlay (props cf) d,
        isSuper := (get_prop (overlay (props cf) d) ''column_type'' = PStr ''Super''),
        cf_ready := True\<rparr>"

section \<open>Examples\<close>

text \<open>
  The values that the properties below are evaluated on: a table of levels, a client that
  has been told to connect to the test keyspace, the two tables of the test schema, and a
  handle on its flat table before and after the schema has arrived.
\<close>

definition example_levels :: ConsistencyLevel where
  "example_levels = \<lparr> ONE = 1, QUORUM = 2 \<rparr>"

definition example_client :: Client where
  "example_client =
     Client_connect example_levels ''localhost:9160'' None True 1300000000000
       (APrim (PStr ''node_cassandra_test'')) None"

definition example_schema :: "(string \<times> jsobj) list" where
  "example_schema =
     [(''Standard'', [(''name'', PStr ''Standard''), (''column_type'', PStr ''Standard'')]),
      (''Super'', [(''name'', PStr ''Super''), (''column_type'', PStr ''Super'')])]"

definition example_handle :: ColumnFamily where
  "example_handle =
     \<lparr> name = ''Standard'', cf_queue = [], cf_ready = False, client = example_client,
       cf_timestampMultiplier = 1, props = [], isSuper = False \<rparr>"

definition example_ready_handle :: ColumnFamily where
  "example_ready_handle =
     example_handle\<lparr>props := [(''name'', PStr ''Standard''), (''column_type'', PStr ''Standard'')],
                    cf_ready := True\<rparr>"

definition example_row :: "string \<Rightarrow> string \<Rightarrow> key_slice" where
  "example_row k v = KeySlice k [COSC_column (Column ''a'' v 1300000000000 PNull)]"

section \<open>Lemmas\<close>

subsection \<open>Numbers as strings\<close>

lemma to_string_examples:
  "to_string (PNum 0) = ''0''"
  "to_string (PNum (- 15)) = ''-15''"
  "to_string (PNum 1300000000000) = ''1300000000000''"
  "to_string (PNum (2 ^ 53 + 1)) = ''9007199254740992''"
  "to_string (PNum (2 ^ 60)) = ''1152921504606847000''"
  "to_string (PNum (10 ^ 20)) = ''100000000000000000000''"
  "to_string (PNum (10 ^ 21)) = ''1e+21''"
  "to_string (PNum (12 * 10 ^ 22)) = ''1.2e+23''"
  by code_simp+

subsection \<open>Consistency levels\<close>

lemma connect_defaults:
  "defaultCL_read (Client_connect CL h m l n k cr) = PNum (QUORUM CL) \<and>
   defaultCL_write (Client_connect CL h m l n k cr) = PNum (QUORUM CL)"
  by (simp add: Client_connect_def Client_use_def Let_def split: option.splits)

lemma setter_truthy:
  "QUORUM CL \<noteq> 0 \<Longrightarrow> truthy (defaultCL_read c) \<and> truthy (defaultCL_write c) \<Longrightarrow>
   truthy (defaultCL_read (setter_calls CL news c)) \<and> truthy (defaultCL_write (setter_calls CL news c))"
  unfolding setter_calls_def
  by (induction news arbitrary: c) (auto simp: Client_consistencyLevel_def js_or_def split: sum.splits if_splits)

lemma calls_made_thrift_call: "calls_made cf (thrift_call r cf) = [r]"
  by (simp add: calls_made_def thrift_call_def)

lemma truthy_not_null: "truthy p \<Longrightarrow> p \<noteq> PNull \<and> p \<noteq> PUndefined"
  by (cases p) simp_all

subsection \<open>The level of a call\<close>

lemma get_prop_update:
  "get_prop (AList.update n v ob) p = (if p = n then v else get_prop ob p)"
  by (simp add: get_prop_def update_conv')

lemma get_prop_overlay:
  "distinct (map fst src) \<Longrightarrow>
   get_prop (overlay base src) p = (case map_of src p of Some v \<Rightarrow> v | None \<Rightarrow> get_prop base p)"
proof (induction src arbitrary: base)
  case Nil
  show ?case by simp
next
  case (Cons a src)
  obtain n v where a: "a = (n, v)" by (cases a)
  from Cons.prems a have d: "distinct (map fst src)" and nn: "map_of src n = None"
    by (auto simp: map_of_eq_None_iff)
  show ?case
    using Cons.IH [OF d, of "AList.update n v base"] nn a
    by (auto simp: get_prop_update split: option.splits)
qed

lemma overlay_level:
  "distinct (map fst ob) \<Longrightarrow>
   js_or (get_prop (overlay default_options ob) ''consistencyLevel'') dflt =
     (if truthy (get_prop ob ''consistencyLevel'') then get_prop ob ''consistencyLevel'' else dflt)"
  by (simp add: get_prop_overlay js_or_def)
    (simp add: get_prop_def default_options_def split: option.splits)

lemma method_args_level:
  assumes wf: "case opts of Some ob \<Rightarrow> distinct (map fst ob) | None \<Rightarrow> True"
    and nm: "case names of Some a \<Rightarrow> is_names a | None \<Rightarrow> True"
    and shape: "case sc of Some s \<Rightarrow> isSuper cf \<and> s \<noteq> [] | None \<Rightarrow> isSuper cf \<longrightarrow> names = None"
  shows "js_or (snd (snd (method_args cf (call_args sc names opts)))) dflt =
           (if truthy (supplied_level opts) then supplied_level opts else dflt)"
proof (cases "isSuper cf")
  case False
  with shape have sc: "sc = None" by (cases sc) simp_all
  show ?thesis
  proof (cases names)
    case None
    show ?thesis
    proof (cases opts)
      case None
      with \<open>names = None\<close> sc False show ?thesis
        by (simp add: method_args_def call_args_def supplied_level_def Let_def
            parseArgumentsForStandardCF_def js_or_def get_prop_def default_options_def)
    next
      case (Some ob)
      with wf have "distinct (map fst ob)" by simp
      from overlay_level [OF this, of dflt] Some \<open>names = None\<close> sc False show ?thesis
        by (simp add: method_args_def call_args_def supplied_level_def Let_def
            parseArgumentsForStandardCF_def)
    qed
  next
    case (Some a)
    with nm have "is_names a" by simp
    then have t: "truthy_arg a" and h: "has_slice a"
      by (cases a rule: is_names.cases; simp)+
    show ?thesis
    proof (cases opts)
      case None
      with Some sc False t h show ?thesis
        by (simp add: method_args_def call_args_def supplied_level_def Let_def
            parseArgumentsForStandardCF_def js_or_def get_prop_def default_options_def)
    next
      case (Some ob)
      with \<open>names = Some a\<close> sc False t h show ?thesis
        by (simp add: method_args_def call_args_def supplied_level_def Let_def
            parseArgumentsForStandardCF_def js_or_def)
    qed
  qed
next
  case True
  show ?thesis
  proof (cases sc)
    case None
    with shape True have nn: "names = None" by simp
    show ?thesis
    proof (cases opts)
      case None
      with nn \<open>sc = None\<close> True show ?thesis
        by (simp add: method_args_def call_args_def supplied_level_def Let_def
            parseArgumentsForSuperCF_def js_or_def get_prop_def default_options_def)
    next
      case (Some ob)
      with wf have "distinct (map fst ob)" by simp
      from overlay_level [OF this, of dflt] Some nn \<open>sc = None\<close> True show ?thesis
        by (simp add: method_args_def call_args_def supplied_level_def Let_def
            parseArgumentsForSuperCF_def)
    qed
  next
    case (Some s)
    with shape have s: "s \<noteq> []" by simp
    show ?thesis
    proof (cases names)
      case None
      show ?thesis
      proof (cases opts)
        case None
        with \<open>names = None\<close> Some s True show ?thesis
          by (simp add: method_args_def call_args_def supplied_level_def Let_def
              parseArgumentsForSuperCF_def js_or_def get_prop_def default_options_def)
      next
        case (Some ob)
        with wf have "distinct (map fst ob)" by simp
        from overlay_level [OF this, of dflt] Some \<open>names = None\<close> \<open>sc = Some s\<close> s True
        show ?thesis
          by (simp add: method_args_def call_args_def supplied_level_def Let_def
              parseArgumentsForSuperCF_def)
      qed
    next
      case (Some a)
      with nm have "is_names a" by simp
      then have t: "truthy_arg a" and h: "has_slice a"
        by (cases a rule: is_names.cases; simp)+
      show ?thesis
      proof (cases opts)
        case None
        with Some \<open>sc = Some s\<close> s True t h show ?thesis
          by (simp add: method_args_def call_args_def supplied_level_def Let_def
              parseArgumentsForSuperCF_def js_or_def get_prop_def default_options_def)
      next
        case (Some ob)
        with \<open>names = Some a\<close> \<open>sc = Some s\<close> s True t h show ?thesis
          by (simp add: method_args_def call_args_def supplied_level_def Let_def
              parseArgumentsForSuperCF_def js_or_def)
      qed
    qed
  qed
qed

subsection \<open>Requests of the enumerator\<close>

lemma requests_of_append: "requests_of (xs @ ys) = requests_of xs @ requests_of ys"
  by (induction xs rule: requests_of.induct) simp_all

lemma rowback_level:
  "\<forall>r \<in> set (requests_of (rowback CL e rows i)). rpc_level r = Some (PNum (ONE CL))"
proof (induction CL e rows i rule: rowback.induct)
  case (1 CL e rows i)
  show ?case
    apply (subst rowback.simps)
    using 1
    by (auto simp: range_request_def rpc_level_def split: sum.splits ack.splits)
qed

lemma callback_level:
  "\<forall>r \<in> set (requests_of (get_range_slices_callback CL e error rows)). rpc_level r = Some (PNum (ONE CL))"
proof (cases error)
  case None
  then have eq: "get_range_slices_callback CL e error rows = rowback CL e rows 0"
    by (simp add: get_range_slices_callback_def)
  show ?thesis unfolding eq by (rule rowback_level)
next
  case (Some er)
  then have "get_range_slices_callback CL e error rows = [Errback er]"
    by (simp add: get_range_slices_callback_def)
  then show ?thesis by simp
qed

lemma run_level:
  assumes "enumerate_run CL e tbl req acc = Some evs"
    and "\<forall>r \<in> set (requests_of acc). rpc_level r = Some (PNum (ONE CL))"
  shows "\<forall>r \<in> set (requests_of evs). rpc_level r = Some (PNum (ONE CL))"
  using assms
proof (induction rule: enumerate_run.raw_induct[rotated 1, consumes 1])
  case (1 enumerate_run CL e tbl req acc evs)
  let ?evs = "get_range_slices_callback CL e None (get_range_slices tbl req)"
  have a: "\<forall>r \<in> set (requests_of (acc @ ?evs)). rpc_level r = Some (PNum (ONE CL))"
    using 1(3) callback_level [of CL e None "get_range_slices tbl req"]
    by (simp only: requests_of_append set_append ball_Un)
  show ?case
  proof (cases "next_request ?evs")
    case None
    with 1(2) have "evs = acc @ ?evs" by (simp add: Let_def)
    with a show ?thesis by blast
  next
    case (Some req')
    with 1(2) have "enumerate_run CL e tbl req' (acc @ ?evs) = Some evs" by (simp add: Let_def)
    from 1(1) [OF this a] show ?thesis .
  qed
qed

subsection \<open>Objects built from a response\<close>

lemma sub_columns_object_Cons:
  "sub_columns_object (c # cs) = AList.update (col_name c) (VStr (col_value c)) (sub_columns_object cs)"
  by (simp add: sub_columns_object_def)

lemma map_of_sub_columns_object:
  "map_of (sub_columns_object cols) = map_of (map (\<lambda>c. (col_name c, VStr (col_value c))) cols)"
proof (induction cols)
  case Nil
  show ?case by (simp add: sub_columns_object_def)
next
  case (Cons c cs)
  then show ?case by (simp add: sub_columns_object_Cons update_conv')
qed

lemma row_object_Cons: "row_object (c # cs) = row_step c (row_object cs)"
  by (simp add: row_object_def)

lemma map_of_row_step: "map_of (row_step c ob) = (map_of ob)(fst (cosc_entry c) \<mapsto> snd (cosc_entry c))"
  by (cases c) (simp_all add: update_conv')

lemma map_of_row_object: "map_of (row_object cols) = map_of (map cosc_entry cols)"
proof (induction cols)
  case Nil
  show ?case by (simp add: row_object_def)
next
  case (Cons c cs)
  then show ?case by (simp add: row_object_Cons map_of_row_step)
qed

lemma map_of_fold_rows:
  "distinct (map fst rows) \<Longrightarrow>
   map_of (fold (\<lambda>(key, cols) obj. AList.update key (VObj (row_object cols)) obj) rows acc) k =
     (case map_of rows k of Some cols \<Rightarrow> Some (VObj (row_object cols)) | None \<Rightarrow> map_of acc k)"
proof (induction rows arbitrary: acc)
  case Nil
  show ?case by simp
next
  case (Cons r rs)
  obtain a b where r: "r = (a, b)" by (cases r)
  from Cons.prems r have d: "distinct (map fst rs)" and n: "map_of rs a = None"
    by (auto simp: map_of_eq_None_iff)
  show ?case
    using Cons.IH [OF d, of "AList.update a (VObj (row_object b)) acc"] n r
    by (auto simp: update_conv' split: option.splits)
qed

lemma map_of_get_object:
  "distinct (map fst rows) \<Longrightarrow>
   map_of (get_object (Some rows)) k = map_option (\<lambda>cols. VObj (row_object cols)) (map_of rows k)"
  by (simp add: get_object_def map_of_fold_rows split: option.splits)

lemma map_of_mset_eq:
  assumes "distinct (map fst xs)" "mset ys = mset xs"
  shows "map_of ys = map_of xs"
proof -
  have "mset (map fst ys) = mset (map fst xs)" using assms(2) by simp
  then have "distinct (map fst ys)" using assms(1) by (metis mset_eq_imp_distinct_iff)
  moreover have "set ys = set xs" using assms(2) by (rule mset_eq_setD)
  ultimately show ?thesis using assms(1) by (simp add: map_of_inject_set)
qed

lemma map_of_entries_find:
  "map_of (map cosc_entry cols) n =
     map_option (\<lambda>c. snd (cosc_entry c)) (find (\<lambda>x. cosc_name x = n) cols)"
proof (induction cols)
  case Nil
  show ?case by simp
next
  case (Cons c cs)
  then show ?case by (cases c) auto
qed

lemma map_of_sub_columns_find:
  "map_of (sub_columns_object cs) m =
     map_option (\<lambda>c. VStr (col_value c)) (find (\<lambda>c. col_name c = m) cs)"
  unfolding map_of_sub_columns_object by (induction cs) auto

lemma row_object_names: "(map_of (row_object cols) n = None) = (n \<notin> cosc_name ` set cols)"
proof -
  have "fst (cosc_entry c) = cosc_name c" for c by (cases c) simp_all
  then have "map fst (map cosc_entry cols) = map cosc_name cols" by simp
  then have "fst ` set (map cosc_entry cols) = cosc_name ` set cols"
    by (metis list.set_map)
  then show ?thesis by (simp add: map_of_row_object map_of_eq_None_iff del: set_map)
qed

subsection \<open>Columns written by \<open>set\<close>\<close>

text \<open>
  What \<open>set\<close> does on a ready handle of a flat table, for every written object: one
  batch call whose mutation list has one column mutation per enumerable property of the
  object, own or inherited, in the order of the loop, named by the property and holding the
  string of its value. When the store returns the written columns for the key, in any
  order, \<open>get\<close> for that key hands its callback an object that maps each of these
  properties to the string of its value, and nothing else. For an object that inherits no
  enumerable property these are its own properties.
\<close>

lemma set_flat_every_enumerable:
  assumes r: "cf_ready cf" and f: "\<not> isSuper cf"
  shows "(let ts = clock (client cf) * cf_timestampMultiplier cf;
              ttl = js_or (get_prop options ''ttl'') PNull;
              cl = js_or (get_prop options ''consistencyLevel'') (defaultCL_write (client cf));
              ms = map (\<lambda>(p, v). Mutation_column_or_supercolumn
                                    (COSC_column (Column p (setval_to_string v) ts ttl)))
                       (for_in vals)
          in calls_made cf (ColumnFamily_set key vals options cb cf) =
               [Batch_mutate key (name cf) ms cl cb] \<and>
             (\<forall>cols. mset cols = mset (concat (map mutation_columns ms)) \<longrightarrow>
                (\<exists>ob. get_callback (keys_of (Key key)) (Some cb') None (Some [(key, cols)]) =
                         Inr [Called cb' None (VObj ob)] \<and>
                      (\<forall>p. map_of ob p =
                             map_option (\<lambda>v. VStr (setval_to_string v)) (map_of (for_in vals) p))))) \<and>
         (inherited vals = [] \<and> distinct (map fst (own vals)) \<longrightarrow> for_in vals = own vals)"
proof -
  let ?ts = "clock (client cf) * cf_timestampMultiplier cf"
  let ?ttl = "js_or (get_prop options ''ttl'') PNull"
  let ?vs = "for_in vals"
  let ?ms = "map (\<lambda>(p, v). Mutation_column_or_supercolumn
                                 (COSC_column (Column p (setval_to_string v) ?ts ?ttl))) ?vs"
  let ?cl = "js_or (get_prop options ''consistencyLevel'') (defaultCL_write (client cf))"
  have d: "distinct (map fst ?vs)" by (simp add: for_in_def distinct_clearjunk)
  have call: "calls_made cf (ColumnFamily_set key vals options cb cf) =
             [Batch_mutate key (name cf) ?ms ?cl cb]"
    using r f by (simp add: ColumnFamily_set_def calls_made_thrift_call set_mutations_def Let_def)
  have written: "map cosc_entry (concat (map mutation_columns
                    (map (\<lambda>(p, v). Mutation_column_or_supercolumn
                                 (COSC_column (Column p (setval_to_string v) ?ts ?ttl))) vs))) =
                   map (\<lambda>(p, v). (p, VStr (setval_to_string v))) vs" for vs
    by (induction vs) auto
  have look: "map_of (map (\<lambda>(p, v). (p, VStr (setval_to_string v))) vs) p =
                map_option (\<lambda>v. VStr (setval_to_string v)) (map_of vs p)" for p vs
    by (induction vs) auto
  have dist: "distinct (map fst (map (\<lambda>(p, v). (p, VStr (setval_to_string v))) ?vs))"
    using d by (simp add: case_prod_beta comp_def)
  have rt: "\<exists>ob. get_callback (keys_of (Key key)) (Some cb') None (Some [(key, cols)]) =
                       Inr [Called cb' None (VObj ob)] \<and>
                    (\<forall>p. map_of ob p =
                           map_option (\<lambda>v. VStr (setval_to_string v)) (map_of ?vs p))"
    if m: "mset cols = mset (concat (map mutation_columns ?ms))" for cols
  proof -
    from m have "mset (map cosc_entry cols) = mset (map cosc_entry (concat (map mutation_columns ?ms)))"
      by (metis mset_map)
    then have "map_of (map cosc_entry cols) = map_of (map (\<lambda>(p, v). (p, VStr (setval_to_string v))) ?vs)"
      using map_of_mset_eq [OF dist] written [of ?vs] by metis
    then have "\<forall>p. map_of (row_object cols) p = map_option (\<lambda>v. VStr (setval_to_string v)) (map_of ?vs p)"
      using look [of ?vs] by (simp add: map_of_row_object)
    moreover have "get_callback (keys_of (Key key)) (Some cb') None (Some [(key, cols)]) =
                       Inr [Called cb' None (VObj (row_object cols))]"
      by (simp add: get_callback_def get_object_def js_index_def)
    ultimately show ?thesis by blast
  qed
  have plain: "inherited vals = [] \<and> distinct (map fst (own vals)) \<longrightarrow> for_in vals = own vals"
    by (simp add: for_in_def distinct_clearjunk_id)
  show ?thesis unfolding Let_def using call rt plain by simp
qed

subsection \<open>Queues\<close>

lemmas cf_defs = ColumnFamily_get_def ColumnFamily_count_def ColumnFamily_set_def
  ColumnFamily_remove_def ColumnFamily_enumerate_def ColumnFamily_truncate_def

lemma cf_apply_not_ready:
  "\<not> cf_ready cf \<Longrightarrow> ColumnFamily_apply CL cmd cf = cf\<lparr>cf_queue := cf_queue cf @ [cmd]\<rparr>"
  by (cases cmd) (simp_all add: cf_defs)

lemma cf_calls_not_ready:
  "\<not> cf_ready cf \<Longrightarrow> fold (ColumnFamily_apply CL) cmds cf = cf\<lparr>cf_queue := cf_queue cf @ cmds\<rparr>"
proof (induction cmds arbitrary: cf)
  case Nil
  show ?case by simp
next
  case (Cons cmd cmds)
  have "\<not> cf_ready (cf\<lparr>cf_queue := cf_queue cf @ [cmd]\<rparr>)" using Cons.prems by simp
  from Cons.IH [OF this] show ?case using Cons.prems by (simp add: cf_apply_not_ready)
qed

lemma cf_apply_ready:
  "cf_ready cf \<Longrightarrow> ColumnFamily_apply CL cmd cf = thrift_call (ColumnFamily_request CL cf cmd) cf"
  by (cases cmd)
    (simp_all add: cf_defs ColumnFamily_request_def thrift_call_def method_args_def Let_def
      enum_closure_of_def range_request_def split: prod.splits)

lemma cf_request_queue:
  "ColumnFamily_request CL (cf\<lparr>cf_queue := q\<rparr>) cmd = ColumnFamily_request CL cf cmd"
  by (cases cmd)
    (simp_all add: cf_defs ColumnFamily_request_def thrift_call_def method_args_def Let_def
      enum_closure_of_def range_request_def split: prod.splits)

lemma cf_request_thrift_call:
  "ColumnFamily_request CL (thrift_call r cf) cmd = ColumnFamily_request CL cf cmd"
  by (cases cmd)
    (simp_all add: cf_defs ColumnFamily_request_def thrift_call_def method_args_def Let_def
      enum_closure_of_def range_request_def split: prod.splits)

lemma cf_dispatch_ready:
  "cf_ready cf \<Longrightarrow> cf_queue cf = q \<Longrightarrow>
   ColumnFamily_dispatch CL cf =
     cf\<lparr>cf_queue := [],
        client := (client cf)\<lparr>sent := sent (client cf) @ map (ColumnFamily_request CL cf) q\<rparr>\<rparr>"
proof (induction q arbitrary: cf)
  case Nil
  then show ?case by (subst ColumnFamily_dispatch.simps) simp
next
  case (Cons cmd q)
  let ?cf1 = "cf\<lparr>cf_queue := q\<rparr>"
  let ?cf2 = "thrift_call (ColumnFamily_request CL ?cf1 cmd) ?cf1"
  have step: "ColumnFamily_dispatch CL cf = ColumnFamily_dispatch CL ?cf2"
    using Cons.prems by (subst ColumnFamily_dispatch.simps) (simp add: cf_apply_ready)
  have r2: "cf_ready ?cf2" and q2: "cf_queue ?cf2 = q"
    using Cons.prems by (simp_all add: thrift_call_def)
  have req: "ColumnFamily_request CL ?cf2 = ColumnFamily_request CL cf"
    by (rule ext) (simp add: cf_request_thrift_call cf_request_queue)
  have req1: "ColumnFamily_request CL ?cf1 cmd = ColumnFamily_request CL cf cmd"
    by (rule cf_request_queue)
  show ?case
    unfolding step Cons.IH [OF r2 q2] req
    by (simp add: thrift_call_def req1)
qed

lemma client_apply_not_ready:
  "\<not> ready c \<Longrightarrow> Client_apply cmd c = c\<lparr>queue := queue c @ [cmd]\<rparr>"
  by (cases cmd) (simp_all add: Client_use_def Client_addKeySpace_def Client_dropKeySpace_def)

lemma client_calls_not_ready:
  "\<not> ready c \<Longrightarrow> fold Client_apply cmds c = c\<lparr>queue := queue c @ cmds\<rparr>"
proof (induction cmds arbitrary: c)
  case Nil
  show ?case by simp
next
  case (Cons cmd cmds)
  have "\<not> ready (c\<lparr>queue := queue c @ [cmd]\<rparr>)" using Cons.prems by simp
  from Cons.IH [OF this] show ?case using Cons.prems by (simp add: client_apply_not_ready)
qed

lemma client_apply_ready:
  "ready c \<Longrightarrow> ready (Client_apply cmd c) \<and> queue (Client_apply cmd c) = queue c \<and>
     sent (Client_apply cmd c) = sent c @ [Client_request cmd]"
  by (cases cmd) (simp_all add: Client_use_def Client_addKeySpace_def Client_dropKeySpace_def)

lemma client_dispatch_ready:
  "ready c \<Longrightarrow> queue c = q \<Longrightarrow>
   ready (Client_dispatch c) \<and> queue (Client_dispatch c) = [] \<and>
   sent (Client_dispatch c) = sent c @ map Client_request q"
proof (induction q arbitrary: c)
  case Nil
  then show ?case by (subst (1 2 3) Client_dispatch.simps) simp
next
  case (Cons cmd q)
  let ?c1 = "Client_apply cmd (c\<lparr>queue := q\<rparr>)"
  have step: "Client_dispatch c = Client_dispatch ?c1"
    using Cons.prems by (subst Client_dispatch.simps) simp
  have a: "ready ?c1" "queue ?c1 = q" "sent ?c1 = sent c @ [Client_request cmd]"
    using Cons.prems client_apply_ready [of "c\<lparr>queue := q\<rparr>" cmd] by simp_all
  show ?case unfolding step using Cons.IH [OF a(1) a(2)] a(3) by simp
qed

lemma cf_request_sent:
  "ColumnFamily_request CL (cf\<lparr>client := (client cf)\<lparr>sent := s\<rparr>\<rparr>) cmd = ColumnFamily_request CL cf cmd"
  by (cases cmd)
    (simp_all add: cf_defs ColumnFamily_request_def thrift_call_def method_args_def Let_def
      enum_closure_of_def range_request_def split: prod.splits)

lemma keyspaceSet_drains:
  assumes nr: "\<not> cf_ready cf" and df: "map_of defs (name cf) = Some d"
  shows "ColumnFamily_on_keyspaceSet CL (Some defs) (cf\<lparr>cf_queue := q\<rparr>) =
           Inr ((made_ready cf d)\<lparr>cf_queue := [],
                   client := (client cf)\<lparr>sent := sent (client cf) @
                     map (ColumnFamily_request CL (made_ready cf d)) q\<rparr>\<rparr>)"
proof -
  let ?r = "made_ready cf d"
  have req: "ColumnFamily_request CL (?r\<lparr>cf_queue := q\<rparr>) = ColumnFamily_request CL ?r"
    by (rule ext) (rule cf_request_queue)
  have ord: "cf\<lparr>cf_queue := q, props := overlay (props cf) d,
                isSuper := (get_prop (overlay (props cf) d) ''column_type'' = PStr ''Super''),
                cf_ready := True\<rparr> = ?r\<lparr>cf_queue := q\<rparr>"
    by (cases cf) (simp add: made_ready_def)
  have "ColumnFamily_on_keyspaceSet CL (Some defs) (cf\<lparr>cf_queue := q\<rparr>) =
          Inr (ColumnFamily_dispatch CL (?r\<lparr>cf_queue := q\<rparr>))"
    using df by (simp add: ColumnFamily_on_keyspaceSet_def Let_def ord)
  also have "ColumnFamily_dispatch CL (?r\<lparr>cf_queue := q\<rparr>) =
      (?r\<lparr>cf_queue := q\<rparr>)\<lparr>cf_queue := [],
        client := (client (?r\<lparr>cf_queue := q\<rparr>))\<lparr>sent := sent (client (?r\<lparr>cf_queue := q\<rparr>)) @
           map (ColumnFamily_request CL (?r\<lparr>cf_queue := q\<rparr>)) q\<rparr>\<rparr>"
    by (rule cf_dispatch_ready) (simp_all add: made_ready_def)
  finally show ?thesis unfolding req by (simp add: made_ready_def)
qed

lemma missing_table_with_listener:
  assumes "map_of defs (name self) = None" "error_listener (client self)"
  shows "\<exists>cf'. ColumnFamily_on_keyspaceSet CL (Some defs) self = Inr cf' \<and> cf_ready cf' \<and>
               cf_queue cf' = [] \<and>
               errors (client cf') = errors (client self) @ [''Column Family '' @ name self @ '' does not exist.'']"
  using assms
  by (simp add: ColumnFamily_on_keyspaceSet_def emit_error_def Let_def cf_dispatch_ready)

lemma missing_table_without_listener:
  assumes "map_of defs (name self) = None" "\<not> error_listener (client self)"
  shows "ColumnFamily_on_keyspaceSet CL (Some defs) self =
           Inl (Uncaught (''Column Family '' @ name self @ '' does not exist.''))"
  using assms
  by (simp add: ColumnFamily_on_keyspaceSet_def emit_error_def Let_def)

lemma cf_request_errors:
  "ColumnFamily_request CL (cf\<lparr>client := (client cf)\<lparr>errors := es\<rparr>\<rparr>) cmd = ColumnFamily_request CL cf cmd"
  by (cases cmd)
    (simp_all add: cf_defs ColumnFamily_request_def thrift_call_def method_args_def Let_def
      enum_closure_of_def range_request_def split: prod.splits)

lemma keyspaceSet_missing_drains:
  assumes nr: "\<not> cf_ready cf" and df: "map_of defs (name cf) = None"
    and l: "error_listener (client cf)"
  shows "ColumnFamily_on_keyspaceSet CL (Some defs) (cf\<lparr>cf_queue := q\<rparr>) =
           Inr ((made_ready cf [])\<lparr>cf_queue := [],
                   client := (client cf)\<lparr>errors := errors (client cf) @
                       [''Column Family '' @ name cf @ '' does not exist.''],
                     sent := sent (client cf) @
                       map (ColumnFamily_request CL (made_ready cf [])) q\<rparr>\<rparr>)"
proof -
  let ?msg = "''Column Family '' @ name cf @ '' does not exist.''"
  let ?c = "(client cf)\<lparr>errors := errors (client cf) @ [?msg]\<rparr>"
  let ?r = "(made_ready cf [])\<lparr>client := ?c, cf_queue := q\<rparr>"
  have req: "ColumnFamily_request CL ?r = ColumnFamily_request CL (made_ready cf [])"
  proof (rule ext)
    fix cmd
    have "ColumnFamily_request CL ?r cmd =
            ColumnFamily_request CL ((made_ready cf [])\<lparr>client := ?c\<rparr>) cmd"
      by (rule cf_request_queue)
    also have "\<dots> = ColumnFamily_request CL (made_ready cf []) cmd"
      using cf_request_errors [where CL = CL and cf = "made_ready cf []"
          and es = "errors (client cf) @ [?msg]" and cmd = cmd]
      by (simp add: made_ready_def)
    finally show "ColumnFamily_request CL ?r cmd = ColumnFamily_request CL (made_ready cf []) cmd" .
  qed
  have "ColumnFamily_on_keyspaceSet CL (Some defs) (cf\<lparr>cf_queue := q\<rparr>) =
          Inr (ColumnFamily_dispatch CL ?r)"
    using df l
    apply (simp add: ColumnFamily_on_keyspaceSet_def emit_error_def Let_def)
    apply (rule arg_cong [where f = "ColumnFamily_dispatch CL"])
    apply (cases cf)
    apply (simp add: made_ready_def)
    done
  also have "ColumnFamily_dispatch CL ?r =
      ?r\<lparr>cf_queue := [],
        client := (client ?r)\<lparr>sent := sent (client ?r) @ map (ColumnFamily_request CL ?r) q\<rparr>\<rparr>"
    by (rule cf_dispatch_ready) (simp_all add: made_ready_def)
  finally show ?thesis unfolding req by (simp add: made_ready_def)
qed

subsection \<open>A stride of one\<close>

lemma stride_one_page:
  assumes "e_stride e = 1" "ks_key r \<noteq> []" "start = [] \<or> start = ks_key r"
  shows "get_range_slices_callback CL e None (get_range_slices [r] (range_request CL e start)) =
           [Next_tick (range_request CL e (ks_key r))]"
  using assms
  by (auto simp: get_range_slices_callback_def range_request_def rowback.simps)

lemma stride_one_never:
  assumes "enumerate_run CL' e' tbl req acc = Some y"
  shows "\<not> (e_stride e' = 1 \<and> (\<exists>r. tbl = [r] \<and> ks_key r \<noteq> [] \<and>
             (req = range_request CL' e' [] \<or> req = range_request CL' e' (ks_key r))))"
  using assms
proof (induction rule: enumerate_run.raw_induct[rotated 1, consumes 1])
  case (1 enumerate_run CL e tbl req acc y)
  show ?case
  proof
    assume "e_stride e = 1 \<and> (\<exists>r. tbl = [r] \<and> ks_key r \<noteq> [] \<and>
             (req = range_request CL e [] \<or> req = range_request CL e (ks_key r)))"
    then obtain r where s: "e_stride e = 1" and t: "tbl = [r]" and k: "ks_key r \<noteq> []"
      and q: "req = range_request CL e [] \<or> req = range_request CL e (ks_key r)" by blast
    have p: "get_range_slices_callback CL e None (get_range_slices tbl req) =
           [Next_tick (range_request CL e (ks_key r))]"
      using q stride_one_page [OF s k, of "[]" CL] stride_one_page [OF s k, of "ks_key r" CL] t
      by auto
    from 1(2) have "enumerate_run CL e tbl (range_request CL e (ks_key r))
                      (acc @ [Next_tick (range_request CL e (ks_key r))]) = Some y"
      by (simp add: p)
    from 1(1) [OF this] s t k show False by blast
  qed
qed

lemma stride_one_diverges:
  assumes "e_stride e = 1" "ks_key r \<noteq> []"
  shows "enumerate_run CL e [r] (range_request CL e []) acc = None"
proof (cases "enumerate_run CL e [r] (range_request CL e []) acc")
  case None
  then show ?thesis .
next
  case (Some y)
  from stride_one_never [OF this] assms show ?thesis by blast
qed

subsection \<open>Strides of two and more\<close>

lemma delivered_append: "delivered (xs @ ys) = delivered xs @ delivered ys"
  by (induction xs rule: delivered.induct) simp_all

lemma outcomes_append: "outcomes (xs @ ys) = outcomes xs @ outcomes ys"
  by (induction xs rule: outcomes.induct) simp_all

lemma delivered_rows:
  "delivered (map (\<lambda>r. Row_callback (ks_key r) (the_columns r)) rs) =
     map (\<lambda>r. (ks_key r, the_columns r)) rs"
  by (induction rs) simp_all

lemma outcomes_rows: "outcomes (map (\<lambda>r. Row_callback (ks_key r) (the_columns r)) rs) = []"
  by (induction rs) simp_all

lemma next_request_snoc_request: "next_request (xs @ [Next_tick r]) = Some r"
  by (induction xs rule: next_request.induct) simp_all

lemma next_request_snoc_done: "next_request (xs @ [Done_callback]) = None"
  by (induction xs rule: next_request.induct) simp_all

lemma rowback_last_page:
  assumes lt: "int (length rows) < e_stride e"
    and fl: "\<forall>r \<in> set rows. enum_columns (ks_columns r) [] = Inr (the_columns r)"
    and ack: "\<forall>k columns. e_callback e k columns = Continue"
  shows "i \<le> length rows \<Longrightarrow>
         rowback CL e rows i =
           map (\<lambda>r. Row_callback (ks_key r) (the_columns r)) (drop i rows) @ [Done_callback]"
proof (induction "length rows - i" arbitrary: i)
  case 0
  then have "i = length rows" by simp
  then show ?case using lt by (subst rowback.simps) simp
next
  case (Suc n)
  then have i: "i < length rows" by simp
  have ih: "rowback CL e rows (i + 1) =
      map (\<lambda>r. Row_callback (ks_key r) (the_columns r)) (drop (i + 1) rows) @ [Done_callback]"
    using Suc by simp
  have c: "enum_columns (ks_columns (rows ! i)) [] = Inr (the_columns (rows ! i))"
    using fl i by simp
  have ne: "e_stride e - 1 \<noteq> int i" using lt i by simp
  have d: "drop i rows = rows ! i # drop (i + 1) rows"
    using i by (simp add: Cons_nth_drop_Suc)
  show ?case
    apply (subst rowback.simps)
    using i ne c ack ih d by simp
qed

lemma rowback_full_page:
  assumes ge: "e_stride e \<le> int (length rows)" and s: "1 \<le> e_stride e"
    and fl: "\<forall>r \<in> set rows. enum_columns (ks_columns r) [] = Inr (the_columns r)"
    and ack: "\<forall>k columns. e_callback e k columns = Continue"
  shows "int i \<le> e_stride e - 1 \<Longrightarrow>
         rowback CL e rows i =
           map (\<lambda>r. Row_callback (ks_key r) (the_columns r))
             (take (nat (e_stride e) - 1 - i) (drop i rows)) @
           [Next_tick (range_request CL e (ks_key (rows ! (nat (e_stride e) - 1))))]"
proof (induction "nat (e_stride e) - 1 - i" arbitrary: i)
  case 0
  then have eq: "int i = e_stride e - 1" using s by simp
  then have i: "i < length rows" and n: "nat (e_stride e) - 1 = i" using ge by simp_all
  show ?case
    apply (subst rowback.simps)
    using i eq n by simp
next
  case (Suc n)
  then have lt: "int i < e_stride e - 1" by simp
  then have i: "i < length rows" using ge by simp
  have ih: "rowback CL e rows (i + 1) =
      map (\<lambda>r. Row_callback (ks_key r) (the_columns r))
        (take (nat (e_stride e) - 1 - (i + 1)) (drop (i + 1) rows)) @
      [Next_tick (range_request CL e (ks_key (rows ! (nat (e_stride e) - 1))))]"
    using Suc lt by simp
  have c: "enum_columns (ks_columns (rows ! i)) [] = Inr (the_columns (rows ! i))"
    using fl i by simp
  have ne: "e_stride e - 1 \<noteq> int i" using lt by simp
  have k: "nat (e_stride e) - 1 - i = Suc (nat (e_stride e) - 1 - (i + 1))"
    using Suc(2) by simp
  have d: "take (nat (e_stride e) - 1 - i) (drop i rows) =
             rows ! i # take (nat (e_stride e) - 1 - (i + 1)) (drop (i + 1) rows)"
    unfolding k using i by (simp add: Cons_nth_drop_Suc [symmetric])
  show ?case
    apply (subst rowback.simps)
    using i ne c ack ih d by simp
qed

lemma page_from_key:
  assumes d: "distinct (map ks_key (pre @ suf))" and ne: "suf \<noteq> []"
    and k: "ks_key (hd suf) \<noteq> []"
  shows "get_range_slices (pre @ suf) (range_request CL e (ks_key (hd suf))) =
           take (nat (e_stride e)) suf"
proof -
  obtain x xs where suf: "suf = x # xs" using ne by (cases suf) auto
  have "ks_key x \<notin> ks_key ` set pre" using d suf by auto
  then have "\<forall>r \<in> set pre. ks_key r \<noteq> ks_key x" by (force simp: image_iff)
  then have "dropWhile (\<lambda>r. ks_key r \<noteq> ks_key x) (pre @ suf) =
               dropWhile (\<lambda>r. ks_key r \<noteq> ks_key x) suf"
    by (simp add: dropWhile_append2)
  also have "\<dots> = suf" using suf by simp
  finally show ?thesis using k suf by (simp add: range_request_def)
qed

lemma enum_columns_error: "enum_columns cs acc = Inl x \<Longrightarrow> x = TypeError"
  by (induction cs acc rule: enum_columns.induct) simp_all

lemma page_from_start:
  "get_range_slices tbl (range_request CL e []) = take (nat (e_stride e)) tbl"
  by (simp add: range_request_def)

lemma run_from_suffix:
  assumes s: "2 \<le> e_stride e"
    and ack: "\<forall>k columns. e_callback e k columns = Continue"
  shows "length suf = n \<Longrightarrow> distinct (map ks_key (pre @ suf)) \<Longrightarrow>
         \<forall>r \<in> set suf. ks_key r \<noteq> [] \<and> enum_columns (ks_columns r) [] = Inr (the_columns r) \<Longrightarrow>
         get_range_slices (pre @ suf) req = take (nat (e_stride e)) suf \<Longrightarrow>
         \<exists>evs. enumerate_run CL e (pre @ suf) req acc = Some (acc @ evs) \<and>
               delivered evs = map (\<lambda>r. (ks_key r, the_columns r)) suf \<and>
               outcomes evs = [Done_callback] \<and> last evs = Done_callback"
proof (induction n arbitrary: suf pre req acc rule: less_induct)
  case (less n)
  let ?S = "nat (e_stride e)"
  let ?page = "take ?S suf"
  let ?row = "\<lambda>r. Row_callback (ks_key r) (the_columns r)"
  have flp: "\<forall>r \<in> set ?page. enum_columns (ks_columns r) [] = Inr (the_columns r)"
    using less.prems(3) by (auto dest: in_set_takeD)
  show ?case
  proof (cases "length suf < ?S")
    case True
    then have pg: "?page = suf" by simp
    have lt: "int (length suf) < e_stride e" using True by simp
    have ev: "get_range_slices_callback CL e None (get_range_slices (pre @ suf) req) =
                map ?row suf @ [Done_callback]"
      using rowback_last_page [OF lt _ ack, of 0 CL] less.prems(3) less.prems(4)
      by (simp add: get_range_slices_callback_def pg)
    have "enumerate_run CL e (pre @ suf) req acc = Some (acc @ (map ?row suf @ [Done_callback]))"
      by (subst enumerate_run.simps) (simp add: ev next_request_snoc_done)
    then show ?thesis
      by (intro exI [of _ "map ?row suf @ [Done_callback]"])
        (simp add: delivered_append outcomes_append delivered_rows outcomes_rows)
  next
    case False
    then have ge: "?S \<le> length suf" by simp
    have S2: "2 \<le> ?S" using s by simp
    let ?suf' = "drop (?S - 1) suf"
    let ?pre' = "pre @ take (?S - 1) suf"
    let ?req' = "range_request CL e (ks_key (suf ! (?S - 1)))"
    have lenp: "e_stride e \<le> int (length ?page)" using ge s by simp
    have nth: "?page ! (?S - 1) = suf ! (?S - 1)" using S2 by simp
    have tk: "take (?S - 1 - 0) (drop 0 ?page) = take (?S - 1) suf"
      by (simp add: min_def)
    have ev: "get_range_slices_callback CL e None (get_range_slices (pre @ suf) req) =
                map ?row (take (?S - 1) suf) @ [Next_tick ?req']"
      using rowback_full_page [OF lenp _ flp ack, of 0 CL] s less.prems(4) nth tk
      by (simp add: get_range_slices_callback_def)
    have step: "enumerate_run CL e (pre @ suf) req acc =
                  enumerate_run CL e (pre @ suf) ?req'
                    (acc @ (map ?row (take (?S - 1) suf) @ [Next_tick ?req']))"
      by (subst enumerate_run.simps) (simp add: ev next_request_snoc_request)
    have split: "?pre' @ ?suf' = pre @ suf" by simp
    have ne': "?suf' \<noteq> []" using ge S2 by simp
    have hd': "hd ?suf' = suf ! (?S - 1)" using ge S2 by (simp add: hd_drop_conv_nth)
    have len': "length ?suf' < n" using less.prems(1) ge S2 by simp
    have d': "distinct (map ks_key (?pre' @ ?suf'))" using less.prems(2) by (simp only: split)
    have p': "\<forall>r \<in> set ?suf'. ks_key r \<noteq> [] \<and> enum_columns (ks_columns r) [] = Inr (the_columns r)"
      using less.prems(3) by (auto dest: in_set_dropD)
    have k': "ks_key (hd ?suf') \<noteq> []" using p' ne' by (simp add: hd_in_set del: hd_drop_conv_nth)
    have g': "get_range_slices (?pre' @ ?suf') ?req' = take ?S ?suf'"
      using page_from_key [OF d' ne' k', of CL e] hd' by simp
    from less.IH [OF len' refl d' p' g', of "acc @ (map ?row (take (?S - 1) suf) @ [Next_tick ?req'])"]
    obtain evs where r: "enumerate_run CL e (?pre' @ ?suf') ?req'
          (acc @ (map ?row (take (?S - 1) suf) @ [Next_tick ?req'])) =
          Some ((acc @ (map ?row (take (?S - 1) suf) @ [Next_tick ?req'])) @ evs)"
      and dl: "delivered evs = map (\<lambda>r. (ks_key r, the_columns r)) ?suf'"
      and oc: "outcomes evs = [Done_callback]" and la: "last evs = Done_callback"
      by blast
    have evne: "evs \<noteq> []" using oc by auto
    have whole: "map (\<lambda>r. (ks_key r, the_columns r)) (take (?S - 1) suf) @
                 map (\<lambda>r. (ks_key r, the_columns r)) ?suf' =
                 map (\<lambda>r. (ks_key r, the_columns r)) suf"
      by (simp only: map_append [symmetric] append_take_drop_id)
    have "enumerate_run CL e (pre @ suf) req acc =
            Some (acc @ ((map ?row (take (?S - 1) suf) @ [Next_tick ?req']) @ evs))"
      using step r [unfolded split] by simp
    then show ?thesis
      using dl oc la evne whole
      by (intro exI [of _ "(map ?row (take (?S - 1) suf) @ [Next_tick ?req']) @ evs"])
        (simp add: delivered_append outcomes_append delivered_rows outcomes_rows)
  qed
qed

text \<open>
  With a stride of two or more, on a table whose rows have distinct keys, none of them
  empty, and flat columns, and with a per-row callback that always continues, the
  enumeration ends: every row is handed to the per-row callback once, in the order of the
  table, and the one event that ends the run is the call of the completion callback, which
  is the last event.
\<close>

lemma enumerate_visits_every_row:
  assumes s: "2 \<le> e_stride e"
    and ack: "\<forall>k columns. e_callback e k columns = Continue"
    and d: "distinct (map ks_key tbl)"
    and w: "\<forall>r \<in> set tbl. ks_key r \<noteq> [] \<and> enum_columns (ks_columns r) [] \<noteq> Inl TypeError"
  shows "\<exists>evs. enumerate_run CL e tbl (range_request CL e []) [] = Some evs \<and>
               delivered evs = map (\<lambda>r. (ks_key r, the_columns r)) tbl \<and>
               outcomes evs = [Done_callback] \<and> last evs = Done_callback"
proof -
  have fl: "\<forall>r \<in> set tbl. ks_key r \<noteq> [] \<and> enum_columns (ks_columns r) [] = Inr (the_columns r)"
  proof
    fix r assume "r \<in> set tbl"
    with w have a: "ks_key r \<noteq> []" and b: "enum_columns (ks_columns r) [] \<noteq> Inl TypeError" by auto
    from b have "enum_columns (ks_columns r) [] = Inr (the_columns r)"
      by (cases "enum_columns (ks_columns r) []") (auto simp: the_columns_def dest: enum_columns_error)
    with a show "ks_key r \<noteq> [] \<and> enum_columns (ks_columns r) [] = Inr (the_columns r)" by simp
  qed
  show ?thesis
    using run_from_suffix [OF s ack refl, of "[]" tbl "range_request CL e []" CL "[]"] d fl
    by (simp add: page_from_start)
qed

subsection \<open>Evaluation of the examples\<close>

lemmas example_defs = example_levels_def example_client_def example_schema_def example_handle_def
  example_ready_handle_def example_row_def Client_connect_def Client_use_def

lemma example_page:
  "get_range_slices_callback example_levels
     (enum_closure_of example_ready_handle None
        (Some (EnumOptions (Some 2) None [(''consistencyLevel'', PNum 2)])) (\<lambda>key columns. Continue))
     None [example_row ''row1'' ''1'', example_row ''row2'' ''2''] =
     [Row_callback ''row1'' [(''a'', ''1'')],
      Next_tick (Get_range_slices (ColumnParent ''Standard'' None)
         (SlicePredicate None
            (Some [(''consistencyLevel'', PNull), (''count'', PNum 100), (''finish'', PStr ''''),
                   (''reversed'', PBool False), (''start'', PStr '''')]))
         (KeyRange ''row2'' '''' 2) (PNum 1))]"
  by (simp add: get_range_slices_callback_def rowback.simps enum_closure_of_def range_request_def
      example_defs)

lemma example_run:
  "enumerate_run example_levels
     (enum_closure_of example_ready_handle None
        (Some (EnumOptions (Some 2) None [(''consistencyLevel'', PNum 2)])) (\<lambda>key columns. Continue))
     [example_row ''row1'' ''1'', example_row ''row2'' ''2'']
     (range_request example_levels
        (enum_closure_of example_ready_handle None
           (Some (EnumOptions (Some 2) None [(''consistencyLevel'', PNum 2)]))
           (\<lambda>key columns. Continue)) [])
     [] =
   Some [Row_callback ''row1'' [(''a'', ''1'')],
         Next_tick (Get_range_slices (ColumnParent ''Standard'' None)
           (SlicePredicate None
              (Some [(''consistencyLevel'', PNull), (''count'', PNum 100), (''finish'', PStr ''''),
                     (''reversed'', PBool False), (''start'', PStr '''')]))
           (KeyRange ''row2'' '''' 2) (PNum 1)),
         Row_callback ''row2'' [(''a'', ''2'')],
         Done_callback]"
  apply (subst enumerate_run.simps)
  apply (simp add: get_range_slices_callback_def rowback.simps enum_closure_of_def range_request_def
      example_defs)
  apply (subst enumerate_run.simps)
  apply (simp add: get_range_slices_callback_def rowback.simps enum_closure_of_def range_request_def
      example_defs)
  done

section \<open>Properties\<close>

text \<open>
  C1, as the code has it for the operations that have no readiness test. On a handle that
  is not ready \<open>slice\<close> emits its error on the client at once and the queue stays empty;
  on a client that is not ready the consistency setter changes the default read level at
  once and the queue stays as it was.
\<close>

theorem ungated_operations_not_queued:
  "\<not> cf_ready example_handle \<and>
   cf_queue example_handle = [] \<and>
   errors example_client = [] \<and>
   ColumnFamily_slice example_handle =
     Inr (example_handle\<lparr>client := example_client
            \<lparr>errors := [''slice(get_range_slices, get_indexed_slices) not supported.'']\<rparr>\<rparr>) \<and>
   \<not> ready example_client \<and>
   defaultCL_read example_client = PNum 2 \<and>
   Client_consistencyLevel example_levels (AObj [(''read'', PNum 1)]) example_client =
     Inr (example_client\<lparr>defaultCL_read := PNum 1, defaultCL_write := PNum 2\<rparr>) \<and>
   queue (example_client\<lparr>defaultCL_read := PNum 1, defaultCL_write := PNum 2\<rparr>) =
     [Use ''node_cassandra_test'' None]"
  by (simp add: ColumnFamily_slice_def emit_error_def Client_consistencyLevel_def js_or_def
      get_prop_def example_defs)

text \<open>
  C1, for the operations that test readiness. These are \<open>get\<close>, \<open>count\<close>, \<open>set\<close>,
  \<open>remove\<close>, \<open>enumerate\<close> and \<open>truncate\<close> on a handle and \<open>use\<close>, \<open>addKeySpace\<close> and
  \<open>dropKeySpace\<close> on a client. While the owner is not ready, any sequence of calls of
  these only lengthens its queue, in the order of the calls, and changes nothing else. When
  the owner becomes ready, the queue is emptied and the calls made on the RPC stub are
  exactly those of the queued operations, each with its own arguments, in the order of
  submission. The handle becomes ready on the arrival of its table's definition. The client
  becomes ready on the connection's \<open>connect\<close> event when it has no credential; when it has
  one, that event only sends the login, the queue stays, and the client becomes ready in
  the callback of the login. An operation called on the owner after that makes its call at
  once and the queue stays empty.
\<close>

theorem queue_fifo:
  assumes nr: "\<not> cf_ready cf" and df: "map_of defs (name cf) = Some d" and cnr: "\<not> ready c"
  shows "fold (ColumnFamily_apply CL) cmds cf = cf\<lparr>cf_queue := cf_queue cf @ cmds\<rparr> \<and>
         (\<exists>cf'. ColumnFamily_on_keyspaceSet CL (Some defs) (fold (ColumnFamily_apply CL) cmds cf) = Inr cf' \<and>
                cf' = (made_ready cf d)\<lparr>cf_queue := [],
                        client := (client cf)\<lparr>sent := sent (client cf) @
                          map (ColumnFamily_request CL (made_ready cf d)) (cf_queue cf @ cmds)\<rparr>\<rparr> \<and>
                cf_ready cf' \<and> cf_queue cf' = [] \<and>
                calls_made cf cf' = map (ColumnFamily_request CL (made_ready cf d)) (cf_queue cf @ cmds) \<and>
                ColumnFamily_apply CL cmd cf' =
                  thrift_call (ColumnFamily_request CL (made_ready cf d) cmd) cf') \<and>
         fold Client_apply ccmds c = c\<lparr>queue := queue c @ ccmds\<rparr> \<and>
         (credential c = None \<longrightarrow>
            (\<exists>c'. Client_on_connect None (fold Client_apply ccmds c) = Inr c' \<and>
                  ready c' \<and> queue c' = [] \<and>
                  sent c' = sent c @ map Client_request (queue c @ ccmds) \<and>
                  queue (Client_apply ccmd c') = [] \<and>
                  sent (Client_apply ccmd c') = sent c' @ [Client_request ccmd])) \<and>
         (\<forall>cr. credential c = Some cr \<longrightarrow>
            Client_on_connect None (fold Client_apply ccmds c) =
              Inr (c\<lparr>queue := queue c @ ccmds, sent := sent c @ [Login cr]\<rparr>) \<and>
            (\<exists>c'. Client_on_login None (c\<lparr>queue := queue c @ ccmds, sent := sent c @ [Login cr]\<rparr>) =
                    Inr c' \<and>
                  ready c' \<and> queue c' = [] \<and>
                  sent c' = sent c @ Login cr # map Client_request (queue c @ ccmds) \<and>
                  queue (Client_apply ccmd c') = [] \<and>
                  sent (Client_apply ccmd c') = sent c' @ [Client_request ccmd]))"
proof -
  let ?r = "made_ready cf d"
  let ?d = "?r\<lparr>cf_queue := [],
                client := (client cf)\<lparr>sent := sent (client cf) @
                  map (ColumnFamily_request CL ?r) (cf_queue cf @ cmds)\<rparr>\<rparr>"
  have a: "fold (ColumnFamily_apply CL) cmds cf = cf\<lparr>cf_queue := cf_queue cf @ cmds\<rparr>"
    using nr by (rule cf_calls_not_ready)
  have b: "ColumnFamily_on_keyspaceSet CL (Some defs) (cf\<lparr>cf_queue := cf_queue cf @ cmds\<rparr>) = Inr ?d"
    using keyspaceSet_drains [OF nr df, of CL "cf_queue cf @ cmds"] by simp
  have b1: "cf_ready ?d" "cf_queue ?d = []" by (simp_all add: made_ready_def)
  have b2: "calls_made cf ?d = map (ColumnFamily_request CL ?r) (cf_queue cf @ cmds)"
    by (simp add: calls_made_def made_ready_def)
  have "ColumnFamily_request CL ?d cmd = ColumnFamily_request CL ?r cmd"
    using cf_request_sent [where CL = CL and cf = "?r\<lparr>cf_queue := []\<rparr>" and cmd = cmd
        and s = "sent (client cf) @ map (ColumnFamily_request CL ?r) (cf_queue cf @ cmds)"]
      cf_request_queue [where CL = CL and cf = ?r and q = "[]" and cmd = cmd]
    by (simp add: made_ready_def)
  then have c: "ColumnFamily_apply CL cmd ?d = thrift_call (ColumnFamily_request CL ?r cmd) ?d"
    using cf_apply_ready [of ?d CL cmd] b1 by simp
  have handle: "\<exists>cf'. ColumnFamily_on_keyspaceSet CL (Some defs) (cf\<lparr>cf_queue := cf_queue cf @ cmds\<rparr>) = Inr cf' \<and>
                cf' = ?d \<and> cf_ready cf' \<and> cf_queue cf' = [] \<and>
                calls_made cf cf' = map (ColumnFamily_request CL ?r) (cf_queue cf @ cmds) \<and>
                ColumnFamily_apply CL cmd cf' = thrift_call (ColumnFamily_request CL ?r cmd) cf'"
    using b b1 b2 c by blast
  have e: "fold Client_apply ccmds c = c\<lparr>queue := queue c @ ccmds\<rparr>"
    using cnr by (rule client_calls_not_ready)
  have drained: "ready (Client_dispatch c1) \<and> queue (Client_dispatch c1) = [] \<and>
           sent (Client_dispatch c1) = sent c1 @ map Client_request (queue c1) \<and>
           queue (Client_apply ccmd (Client_dispatch c1)) = [] \<and>
           sent (Client_apply ccmd (Client_dispatch c1)) =
             sent (Client_dispatch c1) @ [Client_request ccmd]"
    if "ready c1" for c1
    using client_dispatch_ready [OF that refl]
      client_apply_ready [of "Client_dispatch c1" ccmd] by simp
  have plain: "\<exists>c'. Client_on_connect None (c\<lparr>queue := queue c @ ccmds\<rparr>) = Inr c' \<and>
                  ready c' \<and> queue c' = [] \<and>
                  sent c' = sent c @ map Client_request (queue c @ ccmds) \<and>
                  queue (Client_apply ccmd c') = [] \<and>
                  sent (Client_apply ccmd c') = sent c' @ [Client_request ccmd]"
    if n: "credential c = None"
  proof -
    let ?c1 = "c\<lparr>queue := queue c @ ccmds, ready := True\<rparr>"
    have "Client_on_connect None (c\<lparr>queue := queue c @ ccmds\<rparr>) = Inr (Client_dispatch ?c1)"
      using n by (simp add: Client_on_connect_def)
    moreover have "ready ?c1" by simp
    from drained [OF this] have "ready (Client_dispatch ?c1) \<and> queue (Client_dispatch ?c1) = [] \<and>
           sent (Client_dispatch ?c1) = sent c @ map Client_request (queue c @ ccmds) \<and>
           queue (Client_apply ccmd (Client_dispatch ?c1)) = [] \<and>
           sent (Client_apply ccmd (Client_dispatch ?c1)) =
             sent (Client_dispatch ?c1) @ [Client_request ccmd]"
      by simp
    ultimately show ?thesis by blast
  qed
  have login: "Client_on_connect None (c\<lparr>queue := queue c @ ccmds\<rparr>) =
              Inr (c\<lparr>queue := queue c @ ccmds, sent := sent c @ [Login cr]\<rparr>) \<and>
            (\<exists>c'. Client_on_login None (c\<lparr>queue := queue c @ ccmds, sent := sent c @ [Login cr]\<rparr>) =
                    Inr c' \<and>
                  ready c' \<and> queue c' = [] \<and>
                  sent c' = sent c @ Login cr # map Client_request (queue c @ ccmds) \<and>
                  queue (Client_apply ccmd c') = [] \<and>
                  sent (Client_apply ccmd c') = sent c' @ [Client_request ccmd])"
    if s: "credential c = Some cr" for cr
  proof -
    let ?c1 = "c\<lparr>queue := queue c @ ccmds, sent := sent c @ [Login cr], ready := True\<rparr>"
    have 1: "Client_on_connect None (c\<lparr>queue := queue c @ ccmds\<rparr>) =
              Inr (c\<lparr>queue := queue c @ ccmds, sent := sent c @ [Login cr]\<rparr>)"
      using s by (simp add: Client_on_connect_def)
    have 2: "Client_on_login None (c\<lparr>queue := queue c @ ccmds, sent := sent c @ [Login cr]\<rparr>) =
              Inr (Client_dispatch ?c1)"
      by (simp add: Client_on_login_def)
    have "ready ?c1" by simp
    from drained [OF this] have "ready (Client_dispatch ?c1) \<and> queue (Client_dispatch ?c1) = [] \<and>
           sent (Client_dispatch ?c1) = sent c @ Login cr # map Client_request (queue c @ ccmds) \<and>
           queue (Client_apply ccmd (Client_dispatch ?c1)) = [] \<and>
           sent (Client_apply ccmd (Client_dispatch ?c1)) =
             sent (Client_dispatch ?c1) @ [Client_request ccmd]"
      by simp
    with 1 2 show ?thesis by blast
  qed
  show ?thesis
    unfolding a e
    using handle plain login by blast
qed

theorem queue_fifo_witness:
  "\<not> cf_ready example_handle \<and>
   map_of example_schema (name example_handle) =
     Some [(''name'', PStr ''Standard''), (''column_type'', PStr ''Standard'')] \<and>
   \<not> ready example_client \<and>
   credential example_client = None \<and>
   (\<exists>cf'. ColumnFamily_on_keyspaceSet example_levels (Some example_schema)
            (fold (ColumnFamily_apply example_levels)
               [Truncate (Some 0), Get (Key ''row1'') [] (Some 1), Truncate (Some 2)] example_handle) = Inr cf' \<and>
          cf_queue cf' = [] \<and>
          calls_made example_handle cf' =
            [rpc.Truncate ''Standard'' (Some 0),
             Multiget_slice [''row1''] (ColumnParent ''Standard'' None)
               (SlicePredicate None (Some default_options)) (PNum 2) (Some 1),
             rpc.Truncate ''Standard'' (Some 2)]) \<and>
   (\<exists>c'. Client_on_connect None
            (fold Client_apply [DropKeySpace ''old'' (Some 0), Use ''new'' None] example_client) = Inr c' \<and>
         queue c' = [] \<and>
         sent c' = [Describe_keyspace ''node_cassandra_test'', System_drop_keyspace ''old'' (Some 0),
                    Describe_keyspace ''new'']) \<and>
   \<not> ready (example_client\<lparr>credential := Some [(''username'', PStr ''u'')]\<rparr>) \<and>
   Client_on_connect None
     (fold Client_apply [DropKeySpace ''old'' (Some 0)]
        (example_client\<lparr>credential := Some [(''username'', PStr ''u'')]\<rparr>)) =
     Inr (example_client\<lparr>credential := Some [(''username'', PStr ''u'')],
            queue := [Use ''node_cassandra_test'' None, DropKeySpace ''old'' (Some 0)],
            sent := [Login [(''username'', PStr ''u'')]]\<rparr>) \<and>
   (\<exists>c'. Client_on_login None
            (example_client\<lparr>credential := Some [(''username'', PStr ''u'')],
               queue := [Use ''node_cassandra_test'' None, DropKeySpace ''old'' (Some 0)],
               sent := [Login [(''username'', PStr ''u'')]]\<rparr>) = Inr c' \<and>
         queue c' = [] \<and>
         sent c' = [Login [(''username'', PStr ''u'')], Describe_keyspace ''node_cassandra_test'',
                    System_drop_keyspace ''old'' (Some 0)])"
proof -
  let ?d = "[(''name'', PStr ''Standard''), (''column_type'', PStr ''Standard'')]"
  let ?cmds = "[Truncate (Some 0), Get (Key ''row1'') [] (Some 1), Truncate (Some 2)]"
  let ?ccmds = "[DropKeySpace ''old'' (Some 0), Use ''new'' None]"
  let ?cr = "[(''username'', PStr ''u'')]"
  let ?c2 = "example_client\<lparr>credential := Some ?cr\<rparr>"
  have h1: "\<not> cf_ready example_handle" by (simp add: example_handle_def)
  have h2: "map_of example_schema (name example_handle) = Some ?d"
    by (simp add: example_handle_def example_schema_def)
  have h3: "\<not> ready example_client" by (simp add: example_defs)
  have h3': "\<not> ready ?c2" by (simp add: example_defs)
  have h4: "credential example_client = None" by (simp add: example_defs)
  have h4': "credential ?c2 = Some ?cr" by simp
  have r: "map (ColumnFamily_request example_levels (made_ready example_handle ?d))
             (cf_queue example_handle @ ?cmds) =
            [rpc.Truncate ''Standard'' (Some 0),
             Multiget_slice [''row1''] (ColumnParent ''Standard'' None)
               (SlicePredicate None (Some default_options)) (PNum 2) (Some 1),
             rpc.Truncate ''Standard'' (Some 2)]"
    by (simp add: example_defs made_ready_def ColumnFamily_request_def cf_defs thrift_call_def
        method_args_def parseArgumentsForStandardCF_def js_or_def get_prop_def default_options_def)
  have s: "sent example_client @ map Client_request (queue example_client @ ?ccmds) =
             [Describe_keyspace ''node_cassandra_test'', System_drop_keyspace ''old'' (Some 0),
              Describe_keyspace ''new'']"
    by (simp add: example_defs)
  have s2: "sent ?c2 @ Login ?cr # map Client_request
                [Use ''node_cassandra_test'' None, DropKeySpace ''old'' (Some 0)] =
             [Login ?cr, Describe_keyspace ''node_cassandra_test'', System_drop_keyspace ''old'' (Some 0)]"
    "sent ?c2 @ [Login ?cr] = [Login ?cr]"
    "queue ?c2 @ [DropKeySpace ''old'' (Some 0)] =
       [Use ''node_cassandra_test'' None, DropKeySpace ''old'' (Some 0)]"
    by (simp_all add: example_defs)
  note t = queue_fifo [OF h1 h2 h3, of example_levels ?cmds "Truncate None" ?ccmds "Use ''x'' None",
      unfolded r s]
  note u = queue_fifo [OF h1 h2 h3', of example_levels ?cmds "Truncate None"
      "[DropKeySpace ''old'' (Some 0)]" "Use ''x'' None",
      THEN conjunct2, THEN conjunct2, THEN conjunct2, THEN conjunct2, THEN spec, THEN mp, OF h4',
      unfolded s2]
  note t2 = t [THEN conjunct2, THEN conjunct1]
  note t4 = t [THEN conjunct2, THEN conjunct2, THEN conjunct2, THEN conjunct1, THEN mp, OF h4]
  from t4 have p: "\<exists>c'. Client_on_connect None (fold Client_apply ?ccmds example_client) = Inr c' \<and>
         queue c' = [] \<and>
         sent c' = [Describe_keyspace ''node_cassandra_test'', System_drop_keyspace ''old'' (Some 0),
                    Describe_keyspace ''new'']"
    by blast
  from t2 have q: "\<exists>cf'. ColumnFamily_on_keyspaceSet example_levels (Some example_schema)
            (fold (ColumnFamily_apply example_levels) ?cmds example_handle) = Inr cf' \<and>
          cf_queue cf' = [] \<and>
          calls_made example_handle cf' =
            [rpc.Truncate ''Standard'' (Some 0),
             Multiget_slice [''row1''] (ColumnParent ''Standard'' None)
               (SlicePredicate None (Some default_options)) (PNum 2) (Some 1),
             rpc.Truncate ''Standard'' (Some 2)]"
    by blast
  from u [THEN conjunct1] have u1: "Client_on_connect None (fold Client_apply [DropKeySpace ''old'' (Some 0)] ?c2) =
     Inr (example_client\<lparr>credential := Some ?cr,
            queue := [Use ''node_cassandra_test'' None, DropKeySpace ''old'' (Some 0)],
            sent := [Login ?cr]\<rparr>)"
    .
  from u [THEN conjunct2] have u2: "\<exists>c'. Client_on_login None
            (example_client\<lparr>credential := Some ?cr,
               queue := [Use ''node_cassandra_test'' None, DropKeySpace ''old'' (Some 0)],
               sent := [Login ?cr]\<rparr>) = Inr c' \<and>
         queue c' = [] \<and>
         sent c' = [Login ?cr, Describe_keyspace ''node_cassandra_test'',
                    System_drop_keyspace ''old'' (Some 0)]"
    by blast
  show ?thesis
    apply (intro conjI)
            apply (rule h1)
           apply (rule h2)
          apply (rule h3)
         apply (rule h4)
        apply (rule q)
       apply (rule p)
      apply (rule h3')
     apply (rule u1)
    apply (rule u2)
    done
qed

text \<open>
  C6. A call of the consistency setter with an object succeeds and sets both defaults from
  that object alone, whatever they were before: a field that holds a level (a truthy
  value, as every level of the protocol is) becomes the default, and a field that is absent
  (or holds \<open>null\<close>, \<open>undefined\<close> or another falsy value) gives the quorum level.
\<close>

theorem consistencyLevel_rederives:
  "\<exists>c'. Client_consistencyLevel CL (AObj newCL) c = Inr c' \<and>
     defaultCL_read c' =
       (case map_of newCL ''read'' of
          Some v \<Rightarrow> if truthy v then v else PNum (QUORUM CL)
        | None \<Rightarrow> PNum (QUORUM CL)) \<and>
     defaultCL_write c' =
       (case map_of newCL ''write'' of
          Some v \<Rightarrow> if truthy v then v else PNum (QUORUM CL)
        | None \<Rightarrow> PNum (QUORUM CL))"
  by (simp add: Client_consistencyLevel_def js_or_def get_prop_def split: option.splits)

theorem consistencyLevel_rederives_witness:
  "\<exists>c'. Client_consistencyLevel example_levels (AObj [(''read'', PNum 1)])
           (example_client\<lparr>defaultCL_read := PNum 5, defaultCL_write := PNum 1\<rparr>) = Inr c' \<and>
        defaultCL_read c' = PNum 1 \<and> defaultCL_write c' = PNum 2"
proof -
  have r: "(case map_of [(''read'', PNum 1)] ''read'' of
              Some v \<Rightarrow> if truthy v then v else PNum (QUORUM example_levels)
            | None \<Rightarrow> PNum (QUORUM example_levels)) = PNum 1"
    by simp
  have w: "(case map_of [(''read'', PNum 1)] ''write'' of
              Some v \<Rightarrow> if truthy v then v else PNum (QUORUM example_levels)
            | None \<Rightarrow> PNum (QUORUM example_levels)) = PNum 2"
    by (simp add: example_levels_def)
  show ?thesis
    using consistencyLevel_rederives [of example_levels "[(''read'', PNum 1)]"
        "example_client\<lparr>defaultCL_read := PNum 5, defaultCL_write := PNum 1\<rparr>"]
    unfolding r w .
qed

text \<open>
  C5, as the code has it on a super table when column names come first. The call is
  \<open>get('row1', ['c'], {consistencyLevel: 1})\<close> on the super table, with the client's
  defaults at quorum. The normaliser for super tables takes the array, which is not a
  string, for the options, and never looks at the object after it: the request is sent at
  the default read level, not at the level the caller supplied.
\<close>

theorem override_dropped_on_super_table:
  "cf_ready (example_ready_handle\<lparr>name := ''Super'', isSuper := True\<rparr>) \<and>
   isSuper (example_ready_handle\<lparr>name := ''Super'', isSuper := True\<rparr>) \<and>
   defaultCL_read (client (example_ready_handle\<lparr>name := ''Super'', isSuper := True\<rparr>)) = PNum 2 \<and>
   supplied_level (Some [(''consistencyLevel'', PNum 1)]) = PNum 1 \<and>
   calls_made (example_ready_handle\<lparr>name := ''Super'', isSuper := True\<rparr>)
     (ColumnFamily_get (Key ''row1'') [AArr [''c''], AObj [(''consistencyLevel'', PNum 1)]] (Some 0)
        (example_ready_handle\<lparr>name := ''Super'', isSuper := True\<rparr>)) =
     [Multiget_slice [''row1''] (ColumnParent ''Super'' None)
        (SlicePredicate None (Some (default_options @ [(''0'', PStr ''c'')]))) (PNum 2) (Some 0)]"
  by (simp add: ColumnFamily_get_def calls_made_thrift_call method_args_def
      parseArgumentsForSuperCF_def supplied_level_def js_or_def get_prop_def default_options_def
      string_of_nat.simps example_defs)

text \<open>
  C5, for the arguments that the normalisers recognise. On a ready handle whose client has
  the defaults left by \<open>connect\<close> and any history of setter calls, with a quorum level
  that is not zero, \<open>get\<close>, \<open>count\<close>, \<open>set\<close> and \<open>remove\<close> each make one call, and its
  level is truthy, so neither \<open>null\<close> nor \<open>undefined\<close>, whatever the arguments. When the
  arguments after the key are in a shape that
  the normaliser of the table's kind recognises (on a flat table: column names, then
  options; on a super table: a super column name, then column names, then options, or the
  options alone; each may be left out), the level is the one the caller supplied in the
  options when there is one (a truthy value), and otherwise the default read level for
  \<open>get\<close> and \<open>count\<close> and the default write level for \<open>remove\<close>. \<open>set\<close> takes its options
  as its third argument and sends the level supplied there, or else the default write
  level.
\<close>

theorem consistency_level_concrete:
  assumes q: "QUORUM CL \<noteq> 0"
    and r: "cf_ready cf"
    and dr: "defaultCL_read (client cf) =
               defaultCL_read (setter_calls CL news (Client_connect CL h m l n k cr))"
    and dw: "defaultCL_write (client cf) =
               defaultCL_write (setter_calls CL news (Client_connect CL h m l n k cr))"
    and wf: "case opts of Some ob \<Rightarrow> distinct (map fst ob) | None \<Rightarrow> True"
    and nm: "case names of Some a \<Rightarrow> is_names a | None \<Rightarrow> True"
    and shape: "case sc of Some s \<Rightarrow> isSuper cf \<and> s \<noteq> [] | None \<Rightarrow> isSuper cf \<longrightarrow> names = None"
  shows "(let ov = supplied_level opts;
              rd = (if truthy ov then ov else defaultCL_read (client cf));
              wr = (if truthy ov then ov else defaultCL_write (client cf))
          in map rpc_level (calls_made cf (ColumnFamily_get keys (call_args sc names opts) cb cf)) =
               [Some rd] \<and>
             map rpc_level (calls_made cf (ColumnFamily_count keys (call_args sc names opts) cb cf)) =
               [Some rd] \<and>
             map rpc_level (calls_made cf (ColumnFamily_remove key (call_args sc names opts) cb cf)) =
               [Some wr] \<and>
             truthy rd \<and> rd \<noteq> PNull \<and> rd \<noteq> PUndefined \<and>
             truthy wr \<and> wr \<noteq> PNull \<and> wr \<noteq> PUndefined) \<and>
         (let ov = get_prop options ''consistencyLevel'';
              wr = (if truthy ov then ov else defaultCL_write (client cf))
          in map rpc_level (calls_made cf (ColumnFamily_set key vals options cb cf)) = [Some wr] \<and>
             truthy wr \<and> wr \<noteq> PNull \<and> wr \<noteq> PUndefined) \<and>
         (\<exists>lv. map rpc_level (calls_made cf (ColumnFamily_get keys args cb cf)) = [Some lv] \<and>
               truthy lv \<and> lv \<noteq> PNull \<and> lv \<noteq> PUndefined) \<and>
         (\<exists>lv. map rpc_level (calls_made cf (ColumnFamily_count keys args cb cf)) = [Some lv] \<and>
               truthy lv \<and> lv \<noteq> PNull \<and> lv \<noteq> PUndefined) \<and>
         (\<exists>lv. map rpc_level (calls_made cf (ColumnFamily_remove key args cb cf)) = [Some lv] \<and>
               truthy lv \<and> lv \<noteq> PNull \<and> lv \<noteq> PUndefined)"
proof -
  have t: "truthy (defaultCL_read (client cf))" "truthy (defaultCL_write (client cf))"
    using setter_truthy [OF q, of "Client_connect CL h m l n k cr" news] q dr dw
    by (simp_all add: connect_defaults)
  have lv: "truthy (js_or a d) \<and> js_or a d \<noteq> PNull \<and> js_or a d \<noteq> PUndefined" if "truthy d" for a d
    using that truthy_not_null [of "js_or a d"] by (simp add: js_or_def)
  have g: "map rpc_level (calls_made cf (ColumnFamily_get keys as cb cf)) =
             [Some (js_or (snd (snd (method_args cf as))) (defaultCL_read (client cf)))]" for as
    using r by (simp add: ColumnFamily_get_def calls_made_thrift_call rpc_level_def split: prod.splits)
  have c: "map rpc_level (calls_made cf (ColumnFamily_count keys as cb cf)) =
             [Some (js_or (snd (snd (method_args cf as))) (defaultCL_read (client cf)))]" for as
    using r by (simp add: ColumnFamily_count_def calls_made_thrift_call rpc_level_def split: prod.splits)
  have rm: "map rpc_level (calls_made cf (ColumnFamily_remove key as cb cf)) =
             [Some (js_or (snd (snd (method_args cf as))) (defaultCL_write (client cf)))]" for as
    using r by (simp add: ColumnFamily_remove_def calls_made_thrift_call rpc_level_def Let_def split: prod.splits)
  have s: "map rpc_level (calls_made cf (ColumnFamily_set key vals options cb cf)) =
             [Some (js_or (get_prop options ''consistencyLevel'') (defaultCL_write (client cf)))]"
    using r by (simp add: ColumnFamily_set_def calls_made_thrift_call rpc_level_def Let_def)
  note ma = method_args_level [OF wf nm shape]
  have A: "(let ov = supplied_level opts;
              rd = (if truthy ov then ov else defaultCL_read (client cf));
              wr = (if truthy ov then ov else defaultCL_write (client cf))
          in map rpc_level (calls_made cf (ColumnFamily_get keys (call_args sc names opts) cb cf)) =
               [Some rd] \<and>
             map rpc_level (calls_made cf (ColumnFamily_count keys (call_args sc names opts) cb cf)) =
               [Some rd] \<and>
             map rpc_level (calls_made cf (ColumnFamily_remove key (call_args sc names opts) cb cf)) =
               [Some wr] \<and>
             truthy rd \<and> rd \<noteq> PNull \<and> rd \<noteq> PUndefined \<and>
             truthy wr \<and> wr \<noteq> PNull \<and> wr \<noteq> PUndefined)"
    unfolding Let_def g c rm ma
    using t truthy_not_null [of "supplied_level opts"]
      truthy_not_null [of "defaultCL_read (client cf)"]
      truthy_not_null [of "defaultCL_write (client cf)"]
    by simp
  have B: "(let ov = get_prop options ''consistencyLevel'';
              wr = (if truthy ov then ov else defaultCL_write (client cf))
          in map rpc_level (calls_made cf (ColumnFamily_set key vals options cb cf)) = [Some wr] \<and>
             truthy wr \<and> wr \<noteq> PNull \<and> wr \<noteq> PUndefined)"
    unfolding Let_def s
    using lv [OF t(2), of "get_prop options ''consistencyLevel''"] by (simp add: js_or_def)
  have C: "\<exists>lv. map rpc_level (calls_made cf (ColumnFamily_get keys args cb cf)) = [Some lv] \<and>
               truthy lv \<and> lv \<noteq> PNull \<and> lv \<noteq> PUndefined"
    unfolding g using lv [OF t(1)] by blast
  have D: "\<exists>lv. map rpc_level (calls_made cf (ColumnFamily_count keys args cb cf)) = [Some lv] \<and>
               truthy lv \<and> lv \<noteq> PNull \<and> lv \<noteq> PUndefined"
    unfolding c using lv [OF t(1)] by blast
  have E: "\<exists>lv. map rpc_level (calls_made cf (ColumnFamily_remove key args cb cf)) = [Some lv] \<and>
               truthy lv \<and> lv \<noteq> PNull \<and> lv \<noteq> PUndefined"
    unfolding rm using lv [OF t(2)] by blast
  from A B C D E show ?thesis by (intro conjI)
qed

theorem consistency_level_concrete_witness:
  "QUORUM example_levels \<noteq> 0 \<and>
   cf_ready (example_ready_handle\<lparr>client :=
      setter_calls example_levels [AObj [(''read'', PNum 1)]] example_client\<rparr>) \<and>
   map rpc_level
     (calls_made (example_ready_handle\<lparr>client :=
          setter_calls example_levels [AObj [(''read'', PNum 1)]] example_client\<rparr>)
        (ColumnFamily_get (Key ''row1'') [AArr [''a''], AObj [(''consistencyLevel'', PNum 5)]] (Some 0)
           (example_ready_handle\<lparr>client :=
              setter_calls example_levels [AObj [(''read'', PNum 1)]] example_client\<rparr>))) =
     [Some (PNum 5)] \<and>
   map rpc_level
     (calls_made (example_ready_handle\<lparr>client :=
          setter_calls example_levels [AObj [(''read'', PNum 1)]] example_client\<rparr>)
        (ColumnFamily_remove ''row1'' [AArr [''a''], AObj [(''consistencyLevel'', PNum 5)]] (Some 0)
           (example_ready_handle\<lparr>client :=
              setter_calls example_levels [AObj [(''read'', PNum 1)]] example_client\<rparr>))) =
     [Some (PNum 5)] \<and>
   map rpc_level
     (calls_made (example_ready_handle\<lparr>client :=
          setter_calls example_levels [AObj [(''read'', PNum 1)]] example_client\<rparr>)
        (ColumnFamily_get (Key ''row1'') [] (Some 0)
           (example_ready_handle\<lparr>client :=
              setter_calls example_levels [AObj [(''read'', PNum 1)]] example_client\<rparr>))) =
     [Some (PNum 1)] \<and>
   map rpc_level
     (calls_made (example_ready_handle\<lparr>client :=
          setter_calls example_levels [AObj [(''read'', PNum 1)]] example_client\<rparr>)
        (ColumnFamily_remove ''row1'' [] (Some 0)
           (example_ready_handle\<lparr>client :=
              setter_calls example_levels [AObj [(''read'', PNum 1)]] example_client\<rparr>))) =
     [Some (PNum 2)] \<and>
   map rpc_level
     (calls_made (example_ready_handle\<lparr>client :=
          setter_calls example_levels [AObj [(''read'', PNum 1)]] example_client\<rparr>)
        (ColumnFamily_set ''row1'' (Chained [(''a'', SPrim (PNum 1))] [])
           [(''consistencyLevel'', PNum 5)] (Some 0)
           (example_ready_handle\<lparr>client :=
              setter_calls example_levels [AObj [(''read'', PNum 1)]] example_client\<rparr>))) =
     [Some (PNum 5)] \<and>
   isSuper (example_ready_handle\<lparr>name := ''Super'', isSuper := True\<rparr>) \<and>
   map rpc_level
     (calls_made (example_ready_handle\<lparr>name := ''Super'', isSuper := True\<rparr>)
        (ColumnFamily_get (Key ''row1'')
           [APrim (PStr ''sc''), AArr [''c''], AObj [(''consistencyLevel'', PNum 1)]] (Some 0)
           (example_ready_handle\<lparr>name := ''Super'', isSuper := True\<rparr>))) =
     [Some (PNum 1)]"
proof -
  let ?cf = "example_ready_handle\<lparr>client :=
      setter_calls example_levels [AObj [(''read'', PNum 1)]] example_client\<rparr>"
  let ?s = "example_ready_handle\<lparr>name := ''Super'', isSuper := True\<rparr>"
  let ?o5 = "[(''consistencyLevel'', PNum 5)]"
  let ?o1 = "[(''consistencyLevel'', PNum 1)]"
  have h1: "QUORUM example_levels \<noteq> 0" by (simp add: example_levels_def)
  have h2: "cf_ready ?cf" by (simp add: example_ready_handle_def)
  have h2s: "cf_ready ?s" and sup: "isSuper ?s" by (simp_all add: example_ready_handle_def)
  have h3: "defaultCL_read (client ?cf) =
              defaultCL_read (setter_calls example_levels [AObj [(''read'', PNum 1)]]
                (Client_connect example_levels ''localhost:9160'' None True 1300000000000
                   (APrim (PStr ''node_cassandra_test'')) None))"
    by (simp add: example_client_def)
  have h4: "defaultCL_write (client ?cf) =
              defaultCL_write (setter_calls example_levels [AObj [(''read'', PNum 1)]]
                (Client_connect example_levels ''localhost:9160'' None True 1300000000000
                   (APrim (PStr ''node_cassandra_test'')) None))"
    by (simp add: example_client_def)
  have h3s: "defaultCL_read (client ?s) =
              defaultCL_read (setter_calls example_levels []
                (Client_connect example_levels ''localhost:9160'' None True 1300000000000
                   (APrim (PStr ''node_cassandra_test'')) None))"
    and h4s: "defaultCL_write (client ?s) =
              defaultCL_write (setter_calls example_levels []
                (Client_connect example_levels ''localhost:9160'' None True 1300000000000
                   (APrim (PStr ''node_cassandra_test'')) None))"
    by (simp_all add: example_ready_handle_def example_handle_def example_client_def setter_calls_def)
  have wf5: "case Some ?o5 of Some ob \<Rightarrow> distinct (map fst ob) | None \<Rightarrow> True" by simp
  have wf1: "case Some ?o1 of Some ob \<Rightarrow> distinct (map fst ob) | None \<Rightarrow> True" by simp
  have wfn: "case (None :: jsobj option) of Some ob \<Rightarrow> distinct (map fst ob) | None \<Rightarrow> True" by simp
  have nma: "case Some (AArr [''a'']) of Some a \<Rightarrow> is_names a | None \<Rightarrow> True" by simp
  have nmc: "case Some (AArr [''c'']) of Some a \<Rightarrow> is_names a | None \<Rightarrow> True" by simp
  have nmn: "case (None :: jsarg option) of Some a \<Rightarrow> is_names a | None \<Rightarrow> True" by simp
  have sh1: "case (None :: string option) of Some s \<Rightarrow> isSuper ?cf \<and> s \<noteq> []
             | None \<Rightarrow> isSuper ?cf \<longrightarrow> Some (AArr [''a'']) = None"
    by (simp add: example_ready_handle_def example_handle_def)
  have sh2: "case (None :: string option) of Some s \<Rightarrow> isSuper ?cf \<and> s \<noteq> []
             | None \<Rightarrow> isSuper ?cf \<longrightarrow> (None :: jsarg option) = None"
    by simp
  have sh3: "case Some ''sc'' of Some s \<Rightarrow> isSuper ?s \<and> s \<noteq> []
             | None \<Rightarrow> isSuper ?s \<longrightarrow> Some (AArr [''c'']) = None"
    by simp
  have dr: "defaultCL_read (client ?cf) = PNum 1" and dw: "defaultCL_write (client ?cf) = PNum 2"
    by (simp_all add: example_defs setter_calls_def Client_consistencyLevel_def js_or_def get_prop_def)
  have ca: "call_args None (Some (AArr [''a''])) (Some ?o5) = [AArr [''a''], AObj ?o5]"
    "call_args None None None = []"
    "call_args (Some ''sc'') (Some (AArr [''c''])) (Some ?o1) =
       [APrim (PStr ''sc''), AArr [''c''], AObj ?o1]"
    by (simp_all add: call_args_def)
  have sl: "supplied_level (Some ?o5) = PNum 5" "supplied_level None = PUndefined"
    "supplied_level (Some ?o1) = PNum 1"
    by (simp_all add: supplied_level_def get_prop_def)
  have so: "get_prop ?o5 ''consistencyLevel'' = PNum 5"
    by (simp add: get_prop_def)
  note t1 = consistency_level_concrete [OF h1 h2 h3 h4 wf5 nma sh1,
      where keys = "Key ''row1''" and cb = "Some 0" and key = "''row1''" and options = ?o5
        and vals = "Chained [(''a'', SPrim (PNum 1))] []",
      unfolded Let_def ca sl so dr dw]
  note t2 = consistency_level_concrete [OF h1 h2 h3 h4 wfn nmn sh2,
      where keys = "Key ''row1''" and cb = "Some 0" and key = "''row1''",
      THEN conjunct1, unfolded Let_def ca sl dr dw]
  note t3 = consistency_level_concrete [OF h1 h2s h3s h4s wf1 nmc sh3,
      where keys = "Key ''row1''" and cb = "Some 0",
      THEN conjunct1, unfolded Let_def ca sl]
  have a1: "map rpc_level (calls_made ?cf
        (ColumnFamily_get (Key ''row1'') [AArr [''a''], AObj ?o5] (Some 0) ?cf)) = [Some (PNum 5)]"
    using t1 [THEN conjunct1] by simp
  have a2: "map rpc_level (calls_made ?cf
        (ColumnFamily_remove ''row1'' [AArr [''a''], AObj ?o5] (Some 0) ?cf)) = [Some (PNum 5)]"
    using t1 [THEN conjunct1] by simp
  have a3: "map rpc_level (calls_made ?cf (ColumnFamily_get (Key ''row1'') [] (Some 0) ?cf)) =
      [Some (PNum 1)]"
    using t2 by simp
  have a4: "map rpc_level (calls_made ?cf (ColumnFamily_remove ''row1'' [] (Some 0) ?cf)) =
      [Some (PNum 2)]"
    using t2 by simp
  have a5: "map rpc_level (calls_made ?cf
        (ColumnFamily_set ''row1'' (Chained [(''a'', SPrim (PNum 1))] []) ?o5 (Some 0) ?cf)) =
      [Some (PNum 5)]"
    using t1 [THEN conjunct2, THEN conjunct1] by simp
  have a6: "map rpc_level (calls_made ?s
        (ColumnFamily_get (Key ''row1'') [APrim (PStr ''sc''), AArr [''c''], AObj ?o1] (Some 0) ?s)) =
      [Some (PNum 1)]"
    using t3 by simp
  show ?thesis
    apply (intro conjI)
           apply (rule h1)
          apply (rule h2)
         apply (rule a1)
        apply (rule a2)
       apply (rule a3)
      apply (rule a4)
     apply (rule a5)
    apply (rule sup)
    apply (rule a6)
    done
qed

text \<open>
  C3. For a response without an error whose rows have distinct keys: when one key was asked
  for, alone or in an array of one, and the response has its row, the callback gets that
  row's own object, not wrapped; when more than one key was asked for, the callback gets
  an object that maps the keys of the response, and no others, to their rows' objects, so
  a key without a row in the response is absent from it. A row's object has the names of
  the row's columns and super columns and no others; it maps the name of a column to the
  column's value, and the name of a super column to an object that maps the names of its
  sub-columns, and no others, to their values.
\<close>

theorem get_result_shape:
  assumes d: "distinct (map fst rows)"
  shows "(\<forall>cols. map_of rows k = Some cols \<longrightarrow>
            get_callback (keys_of (Key k)) (Some cb) None (Some rows) =
              Inr [Called cb None (VObj (row_object cols))] \<and>
            get_callback (keys_of (Keys [k])) (Some cb) None (Some rows) =
              Inr [Called cb None (VObj (row_object cols))]) \<and>
         (1 < length ks \<longrightarrow>
            (\<exists>obj. get_callback (keys_of (Keys ks)) (Some cb) None (Some rows) =
                     Inr [Called cb None (VObj obj)] \<and>
                   (\<forall>key. map_of obj key =
                            map_option (\<lambda>cols. VObj (row_object cols)) (map_of rows key)) \<and>
                   (\<forall>key. key \<notin> fst ` set rows \<longrightarrow> map_of obj key = None))) \<and>
         (\<forall>n. (map_of (row_object row) n = None) = (n \<notin> cosc_name ` set row)) \<and>
         (\<forall>n c. find (\<lambda>x. cosc_name x = n) row = Some (COSC_column c) \<longrightarrow>
                  map_of (row_object row) n = Some (VStr (col_value c))) \<and>
         (\<forall>n sc. find (\<lambda>x. cosc_name x = n) row = Some (COSC_super_column sc) \<longrightarrow>
                  (\<exists>sub. map_of (row_object row) n = Some (VObj sub) \<and>
                         (\<forall>m. map_of sub m =
                                map_option (\<lambda>c. VStr (col_value c))
                                  (find (\<lambda>c. col_name c = m) (sc_columns sc)))))"
proof -
  have one: "get_callback [k] (Some cb) None (Some rows) = Inr [Called cb None (VObj (row_object cols))]"
    if "map_of rows k = Some cols" for cols
    using that map_of_get_object [OF d, of k]
    by (simp add: get_callback_def js_index_def)
  have many: "get_callback ks (Some cb) None (Some rows) = Inr [Called cb None (VObj (get_object (Some rows)))]"
    if "1 < length ks"
    using that by (simp add: get_callback_def)
  have absent: "map_of (get_object (Some rows)) key = None" if "key \<notin> fst ` set rows" for key
    using that map_of_get_object [OF d, of key] by (simp add: map_of_eq_None_iff)
  have shape: "(\<forall>cols. map_of rows k = Some cols \<longrightarrow>
            get_callback (keys_of (Key k)) (Some cb) None (Some rows) =
              Inr [Called cb None (VObj (row_object cols))] \<and>
            get_callback (keys_of (Keys [k])) (Some cb) None (Some rows) =
              Inr [Called cb None (VObj (row_object cols))]) \<and>
         (1 < length ks \<longrightarrow>
            (\<exists>obj. get_callback (keys_of (Keys ks)) (Some cb) None (Some rows) =
                     Inr [Called cb None (VObj obj)] \<and>
                   (\<forall>key. map_of obj key =
                            map_option (\<lambda>cols. VObj (row_object cols)) (map_of rows key)) \<and>
                   (\<forall>key. key \<notin> fst ` set rows \<longrightarrow> map_of obj key = None)))"
    using one many absent map_of_get_object [OF d] by auto
  have flat: "map_of (row_object row) n = Some (VStr (col_value c))"
    if "find (\<lambda>x. cosc_name x = n) row = Some (COSC_column c)" for n c
    using that by (simp add: map_of_row_object map_of_entries_find)
  have nested: "\<exists>sub. map_of (row_object row) n = Some (VObj sub) \<and>
                  (\<forall>m. map_of sub m =
                         map_option (\<lambda>c. VStr (col_value c))
                           (find (\<lambda>c. col_name c = m) (sc_columns sc)))"
    if "find (\<lambda>x. cosc_name x = n) row = Some (COSC_super_column sc)" for n sc
    using that by (simp add: map_of_row_object map_of_entries_find map_of_sub_columns_find)
  from shape row_object_names flat nested show ?thesis by blast
qed

theorem get_result_shape_witness:
  "distinct (map fst [(''row1'', [COSC_super_column
                 (SuperColumn ''sc1'' [Column ''x'' ''1'' 0 PNull, Column ''y'' ''2'' 0 PNull]),
               COSC_super_column (SuperColumn ''sc2'' [Column ''z'' ''3'' 0 PNull])])]) \<and>
   get_callback (keys_of (Key ''row1'')) (Some 0) None
     (Some [(''row1'', [COSC_super_column
                 (SuperColumn ''sc1'' [Column ''x'' ''1'' 0 PNull, Column ''y'' ''2'' 0 PNull]),
               COSC_super_column (SuperColumn ''sc2'' [Column ''z'' ''3'' 0 PNull])])]) =
     Inr [Called 0 None
            (VObj [(''sc2'', VObj [(''z'', VStr ''3'')]),
                   (''sc1'', VObj [(''y'', VStr ''2''), (''x'', VStr ''1'')])])] \<and>
   1 < length [''row1'', ''row2''] \<and>
   (\<exists>obj. get_callback (keys_of (Keys [''row1'', ''row2''])) (Some 0) None
            (Some [(''row1'', [COSC_super_column
                 (SuperColumn ''sc1'' [Column ''x'' ''1'' 0 PNull, Column ''y'' ''2'' 0 PNull]),
               COSC_super_column (SuperColumn ''sc2'' [Column ''z'' ''3'' 0 PNull])])]) =
            Inr [Called 0 None (VObj obj)] \<and>
          map_of obj ''row1'' =
            Some (VObj [(''sc2'', VObj [(''z'', VStr ''3'')]),
                        (''sc1'', VObj [(''y'', VStr ''2''), (''x'', VStr ''1'')])]) \<and>
          map_of obj ''row2'' = None) \<and>
   (\<exists>sub. map_of (row_object [COSC_super_column
                 (SuperColumn ''sc1'' [Column ''x'' ''1'' 0 PNull, Column ''y'' ''2'' 0 PNull]),
               COSC_super_column (SuperColumn ''sc2'' [Column ''z'' ''3'' 0 PNull])]) ''sc1'' =
            Some (VObj sub) \<and>
          map_of sub ''x'' = Some (VStr ''1'') \<and> map_of sub ''y'' = Some (VStr ''2'') \<and>
          map_of sub ''z'' = None) \<and>
   map_of (row_object [COSC_column (Column ''a'' ''1'' 0 PNull),
                       COSC_column (Column ''b'' ''2'' 0 PNull)]) ''b'' = Some (VStr ''2'') \<and>
   map_of (row_object [COSC_column (Column ''a'' ''1'' 0 PNull),
                       COSC_column (Column ''b'' ''2'' 0 PNull)]) ''c'' = None"
proof -
  let ?sc1 = "SuperColumn ''sc1'' [Column ''x'' ''1'' 0 PNull, Column ''y'' ''2'' 0 PNull]"
  let ?cols = "[COSC_super_column ?sc1,
                COSC_super_column (SuperColumn ''sc2'' [Column ''z'' ''3'' 0 PNull])]"
  let ?flat = "[COSC_column (Column ''a'' ''1'' 0 PNull), COSC_column (Column ''b'' ''2'' 0 PNull)]"
  let ?rows = "[(''row1'', ?cols)]"
  let ?ob = "[(''sc2'', VObj [(''z'', VStr ''3'')]),
              (''sc1'', VObj [(''y'', VStr ''2''), (''x'', VStr ''1'')])]"
  have h1: "distinct (map fst ?rows)" by simp
  have h2: "map_of ?rows ''row1'' = Some ?cols" by simp
  have h3: "1 < length [''row1'', ''row2'']" by simp
  have ro: "row_object ?cols = ?ob"
    by (simp add: row_object_def sub_columns_object_def)
  have m1: "map_option (\<lambda>cols. VObj (row_object cols)) (map_of ?rows ''row1'') = Some (VObj ?ob)"
    by (simp add: ro)
  have m2: "map_option (\<lambda>cols. VObj (row_object cols)) (map_of ?rows ''row2'') = None"
    by simp
  have f1: "find (\<lambda>x. cosc_name x = ''sc1'') ?cols = Some (COSC_super_column ?sc1)" by simp
  have f2: "find (\<lambda>x. cosc_name x = ''b'') ?flat = Some (COSC_column (Column ''b'' ''2'' 0 PNull))"
    by simp
  have f3: "''c'' \<notin> cosc_name ` set ?flat" by simp
  have s1: "map_option (\<lambda>c. VStr (col_value c)) (find (\<lambda>c. col_name c = ''x'') (sc_columns ?sc1)) =
              Some (VStr ''1'')"
    "map_option (\<lambda>c. VStr (col_value c)) (find (\<lambda>c. col_name c = ''y'') (sc_columns ?sc1)) =
              Some (VStr ''2'')"
    "map_option (\<lambda>c. VStr (col_value c)) (find (\<lambda>c. col_name c = ''z'') (sc_columns ?sc1)) = None"
    by simp_all
  note t = get_result_shape [OF h1, of "''row1''" 0 "[''row1'', ''row2'']" ?cols]
  note tf = get_result_shape [OF h1, of "''row1''" 0 "[''row1'', ''row2'']" ?flat]
  from t [THEN conjunct1, THEN spec, THEN mp, OF h2, THEN conjunct1]
  have a: "get_callback (keys_of (Key ''row1'')) (Some 0) None (Some ?rows) =
      Inr [Called 0 None (VObj ?ob)]"
    unfolding ro .
  from t [THEN conjunct2, THEN conjunct1, THEN mp, OF h3]
  obtain obj where b: "get_callback (keys_of (Keys [''row1'', ''row2''])) (Some 0) None
            (Some ?rows) = Inr [Called 0 None (VObj obj)]"
    and c: "\<forall>key. map_of obj key = map_option (\<lambda>cols. VObj (row_object cols)) (map_of ?rows key)"
    by blast
  from c m1 m2 have c1: "map_of obj ''row1'' = Some (VObj ?ob)" and c2: "map_of obj ''row2'' = None"
    by simp_all
  from t [THEN conjunct2, THEN conjunct2, THEN conjunct2, THEN conjunct2, THEN spec, THEN spec,
      THEN mp, OF f1]
  obtain sub where n1: "map_of (row_object ?cols) ''sc1'' = Some (VObj sub)"
    and n2: "\<forall>m. map_of sub m = map_option (\<lambda>c. VStr (col_value c))
                  (find (\<lambda>c. col_name c = m) (sc_columns ?sc1))"
    by blast
  from n2 s1 have n3: "map_of sub ''x'' = Some (VStr ''1'')" "map_of sub ''y'' = Some (VStr ''2'')"
    "map_of sub ''z'' = None"
    by simp_all
  from tf [THEN conjunct2, THEN conjunct2, THEN conjunct2, THEN conjunct1, THEN spec, THEN spec,
      THEN mp, OF f2]
  have g1: "map_of (row_object ?flat) ''b'' = Some (VStr ''2'')" by simp
  from tf [THEN conjunct2, THEN conjunct2, THEN conjunct1, THEN spec, of "''c''"] f3
  have g2: "map_of (row_object ?flat) ''c'' = None" by blast
  have e1: "\<exists>obj. get_callback (keys_of (Keys [''row1'', ''row2''])) (Some 0) None
            (Some ?rows) = Inr [Called 0 None (VObj obj)] \<and>
          map_of obj ''row1'' = Some (VObj ?ob) \<and> map_of obj ''row2'' = None"
    using b c1 c2 by blast
  have e2: "\<exists>sub. map_of (row_object ?cols) ''sc1'' = Some (VObj sub) \<and>
          map_of sub ''x'' = Some (VStr ''1'') \<and> map_of sub ''y'' = Some (VStr ''2'') \<and>
          map_of sub ''z'' = None"
    using n1 n3 by blast
  show ?thesis
    apply (intro conjI)
          apply (rule h1)
         apply (rule a)
        apply (rule h3)
       apply (rule e1)
      apply (rule e2)
     apply (rule g1)
    apply (rule g2)
    done
qed

text \<open>
  C7, as the code has it. The written object has the own property \<open>a\<close> and inherits the
  enumerable property \<open>b\<close> from its prototype. On the flat table \<open>set\<close> writes two
  columns, one of them for the inherited property. On the super table, where the loop tests
  \<open>hasOwnProperty\<close>, the object that has the own property \<open>sc\<close> and inherits \<open>inh\<close> is
  written as the one super column \<open>sc\<close>.
\<close>

theorem set_flat_writes_inherited:
  "calls_made example_ready_handle
     (ColumnFamily_set ''row1'' (Chained [(''a'', SPrim (PNum 1))] [(''b'', SPrim (PNum 2))]) []
        (Some 0) example_ready_handle) =
     [Batch_mutate ''row1'' ''Standard''
        [Mutation_column_or_supercolumn (COSC_column (Column ''a'' ''1'' 1300000000000 PNull)),
         Mutation_column_or_supercolumn (COSC_column (Column ''b'' ''2'' 1300000000000 PNull))]
        (PNum 2) (Some 0)] \<and>
   calls_made (example_ready_handle\<lparr>name := ''Super'', isSuper := True\<rparr>)
     (ColumnFamily_set ''row1''
        (Chained [(''sc'', SObj (Chained [(''x'', PNum 1)] []))]
                 [(''inh'', SObj (Chained [(''y'', PNum 2)] []))]) []
        (Some 0) (example_ready_handle\<lparr>name := ''Super'', isSuper := True\<rparr>)) =
     [Batch_mutate ''row1'' ''Super''
        [Mutation_column_or_supercolumn
           (COSC_super_column (SuperColumn ''sc'' [Column ''x'' ''1'' 1300000000000 PNull]))]
        (PNum 2) (Some 0)]"
  by (simp add: ColumnFamily_set_def calls_made_thrift_call set_mutations_def for_in_def
      example_defs js_or_def get_prop_def string_of_number_def digits.simps)

text \<open>
  C8. On a ready handle \<open>remove\<close> makes one batch call with a single deletion, stamped with
  the clock times the handle's multiplier, for the super column of the resolved parent.
  The deletion carries the resolved predicate itself when that predicate has a list of
  column names, and no predicate otherwise. On a flat table an array of names after the key
  resolves to those names and no super column, and nothing after the key resolves to no
  names; on a super table a super column name followed by an array resolves to that super
  column and those names, and the super column name alone to that super column and no
  names.
\<close>

theorem remove_deletion_predicate:
  assumes r: "cf_ready cf"
  shows "(let (column_parent, predicate, cl0) = method_args cf args in
          calls_made cf (ColumnFamily_remove key args cb cf) =
            [Batch_mutate key (name cf)
               [Mutation_deletion
                  (Deletion (clock (client cf) * cf_timestampMultiplier cf)
                     (super_column column_parent)
                     (case column_names predicate of
                        Some names \<Rightarrow> Some predicate
                      | None \<Rightarrow> None))]
               (js_or cl0 (defaultCL_write (client cf))) cb]) \<and>
         (\<not> isSuper cf \<longrightarrow>
            fst (method_args cf (AArr names # rest)) = ColumnParent (name cf) None \<and>
            fst (snd (method_args cf (AArr names # rest))) = SlicePredicate (Some names) None \<and>
            column_names (fst (snd (method_args cf []))) = None) \<and>
         (isSuper cf \<and> sc \<noteq> [] \<longrightarrow>
            fst (method_args cf (APrim (PStr sc) # AArr names # rest)) = ColumnParent (name cf) (Some sc) \<and>
            fst (snd (method_args cf (APrim (PStr sc) # AArr names # rest))) =
              SlicePredicate (Some names) None \<and>
            fst (method_args cf [APrim (PStr sc)]) = ColumnParent (name cf) (Some sc) \<and>
            column_names (fst (snd (method_args cf [APrim (PStr sc)]))) = None)"
proof -
  have a: "(let (column_parent, predicate, cl0) = method_args cf args in
          calls_made cf (ColumnFamily_remove key args cb cf) =
            [Batch_mutate key (name cf)
               [Mutation_deletion
                  (Deletion (clock (client cf) * cf_timestampMultiplier cf)
                     (super_column column_parent)
                     (case column_names predicate of
                        Some names \<Rightarrow> Some predicate
                      | None \<Rightarrow> None))]
               (js_or cl0 (defaultCL_write (client cf))) cb])"
    using r
    by (auto simp: ColumnFamily_remove_def calls_made_thrift_call Let_def
        split: prod.splits option.splits)
  have b: "\<not> isSuper cf \<longrightarrow>
            fst (method_args cf (AArr names # rest)) = ColumnParent (name cf) None \<and>
            fst (snd (method_args cf (AArr names # rest))) = SlicePredicate (Some names) None \<and>
            column_names (fst (snd (method_args cf []))) = None"
    by (simp add: method_args_def parseArgumentsForStandardCF_def split: prod.splits)
  have c: "isSuper cf \<and> sc \<noteq> [] \<longrightarrow>
            fst (method_args cf (APrim (PStr sc) # AArr names # rest)) = ColumnParent (name cf) (Some sc) \<and>
            fst (snd (method_args cf (APrim (PStr sc) # AArr names # rest))) =
              SlicePredicate (Some names) None \<and>
            fst (method_args cf [APrim (PStr sc)]) = ColumnParent (name cf) (Some sc) \<and>
            column_names (fst (snd (method_args cf [APrim (PStr sc)]))) = None"
    by (simp add: method_args_def parseArgumentsForSuperCF_def split: prod.splits)
  from a b c show ?thesis by blast
qed

theorem remove_deletion_predicate_witness:
  "cf_ready example_ready_handle \<and> \<not> isSuper example_ready_handle \<and>
   calls_made example_ready_handle
     (ColumnFamily_remove ''row1'' [AArr [''a'']] (Some 0) example_ready_handle) =
     [Batch_mutate ''row1'' ''Standard''
        [Mutation_deletion
           (Deletion 1300000000000 None (Some (SlicePredicate (Some [''a'']) None)))]
        (PNum 2) (Some 0)] \<and>
   cf_ready (example_ready_handle\<lparr>name := ''Super'', isSuper := True\<rparr>) \<and>
   isSuper (example_ready_handle\<lparr>name := ''Super'', isSuper := True\<rparr>) \<and>
   calls_made (example_ready_handle\<lparr>name := ''Super'', isSuper := True\<rparr>)
     (ColumnFamily_remove ''row1'' [APrim (PStr ''sc'')] (Some 0)
        (example_ready_handle\<lparr>name := ''Super'', isSuper := True\<rparr>)) =
     [Batch_mutate ''row1'' ''Super''
        [Mutation_deletion (Deletion 1300000000000 (Some ''sc'') None)]
        (PNum 2) (Some 0)]"
proof -
  let ?s = "example_ready_handle\<lparr>name := ''Super'', isSuper := True\<rparr>"
  have h1: "cf_ready example_ready_handle" and h2: "\<not> isSuper example_ready_handle"
    and h3: "cf_ready ?s" and h4: "isSuper ?s"
    by (simp_all add: example_ready_handle_def example_handle_def)
  have m1: "method_args example_ready_handle [AArr [''a'']] =
              (ColumnParent ''Standard'' None, SlicePredicate (Some [''a'']) None, PNull)"
    by (simp add: method_args_def parseArgumentsForStandardCF_def example_ready_handle_def
        example_handle_def get_prop_def default_options_def)
  have m2: "method_args ?s [APrim (PStr ''sc'')] =
              (ColumnParent ''Super'' (Some ''sc''), SlicePredicate None (Some default_options), PNull)"
    by (simp add: method_args_def parseArgumentsForSuperCF_def example_ready_handle_def
        example_handle_def get_prop_def default_options_def)
  have e1: "name example_ready_handle = ''Standard''"
    "clock (client example_ready_handle) * cf_timestampMultiplier example_ready_handle = 1300000000000"
    "js_or PNull (defaultCL_write (client example_ready_handle)) = PNum 2"
    by (simp_all add: example_defs js_or_def)
  have e2: "name ?s = ''Super''"
    "clock (client ?s) * cf_timestampMultiplier ?s = 1300000000000"
    "js_or PNull (defaultCL_write (client ?s)) = PNum 2"
    by (simp_all add: example_defs js_or_def)
  note t1 = remove_deletion_predicate [OF h1, of "[AArr [''a'']]" "''row1''" "Some 0",
      THEN conjunct1, unfolded m1 e1, simplified]
  note t2 = remove_deletion_predicate [OF h3, of "[APrim (PStr ''sc'')]" "''row1''" "Some 0",
      THEN conjunct1, unfolded m2 e2, simplified]
  from t1 t2 h1 h2 h3 h4 e1 e2 show ?thesis by simp
qed

text \<open>
  C9. When the RPC hands an error to the callback of \<open>get\<close> or of \<open>count\<close>, the user's
  callback is called twice: first from the error branch with the error and \<open>undefined\<close>
  (in \<open>count\<close> the second argument is the variable \<open>obj\<close>, not assigned yet), and then
  again with the error and what the flattening code builds from the response.
\<close>

theorem error_calls_back_twice:
  "get_callback keys (Some cb) (Some e) res =
     Inr [Called cb (Some e) VUndefined,
          Called cb (Some e)
            (if length keys = 1 then js_index (get_object res) (hd keys) else VObj (get_object res))] \<and>
   count_callback keys (Some cb) (Some e) cres =
     Inr [Called cb (Some e) VUndefined,
          Called cb (Some e)
            (if length keys = 1 then js_index (count_object cres) (hd keys)
             else VObj (count_object cres))]"
  by (simp add: get_callback_def count_callback_def)

theorem error_calls_back_twice_witness:
  "get_callback [''row1''] (Some 7) (Some ''TimedOutException'') None =
     Inr [Called 7 (Some ''TimedOutException'') VUndefined,
          Called 7 (Some ''TimedOutException'') VUndefined] \<and>
   count_callback [''row1'', ''row2''] (Some 7) (Some ''TimedOutException'') None =
     Inr [Called 7 (Some ''TimedOutException'') VUndefined,
          Called 7 (Some ''TimedOutException'') (VObj [])]"
proof -
  have a: "(if length [''row1''] = 1 then js_index (get_object None) (hd [''row1''])
            else VObj (get_object None)) = VUndefined"
    by (simp add: get_object_def js_index_def)
  have b: "(if length [''row1'', ''row2''] = 1 then js_index (count_object None) (hd [''row1'', ''row2''])
            else VObj (count_object None)) = VObj []"
    by (simp add: count_object_def)
  note t1 = error_calls_back_twice [of "[''row1'']" 7 "''TimedOutException''" None None,
      THEN conjunct1, unfolded a]
  note t2 = error_calls_back_twice [of "[''row1'', ''row2'']" 7 "''TimedOutException''" None None,
      THEN conjunct2, unfolded b]
  from t1 t2 show ?thesis by blast
qed

text \<open>
  C10. On a ready handle \<open>enumerate\<close> makes one range request, at level \<open>ONE\<close>; whatever
  page comes back, with or without an error, every request that the page's callback
  schedules is at level \<open>ONE\<close>; and so is every request of a whole enumeration that ends.
  Neither the client's defaults nor the options of the call enter.
\<close>

theorem enumerate_level_one:
  assumes r: "cf_ready cf"
  shows "map rpc_level (calls_made cf (ColumnFamily_enumerate CL cols opts cb cf)) =
           [Some (PNum (ONE CL))] \<and>
         (\<forall>r \<in> set (requests_of
                      (get_range_slices_callback CL (enum_closure_of cf cols opts cb) error rows)).
            rpc_level r = Some (PNum (ONE CL))) \<and>
         (\<forall>evs. enumerate_run CL (enum_closure_of cf cols opts cb) tbl
                  (range_request CL (enum_closure_of cf cols opts cb) []) [] = Some evs \<longrightarrow>
                (\<forall>r \<in> set (requests_of evs). rpc_level r = Some (PNum (ONE CL))))"
proof -
  have a: "map rpc_level (calls_made cf (ColumnFamily_enumerate CL cols opts cb cf)) =
           [Some (PNum (ONE CL))]"
    using r
    by (simp add: ColumnFamily_enumerate_def calls_made_thrift_call range_request_def rpc_level_def)
  have c: "\<forall>r \<in> set (requests_of evs). rpc_level r = Some (PNum (ONE CL))"
    if "enumerate_run CL (enum_closure_of cf cols opts cb) tbl
          (range_request CL (enum_closure_of cf cols opts cb) []) [] = Some evs" for evs
    using run_level [OF that] by simp
  from a c callback_level show ?thesis by blast
qed

theorem enumerate_level_one_witness:
  "cf_ready example_ready_handle \<and>
   defaultCL_read (client example_ready_handle) = PNum 2 \<and>
   map rpc_level
     (calls_made example_ready_handle
        (ColumnFamily_enumerate example_levels None
           (Some (EnumOptions (Some 2) None [(''consistencyLevel'', PNum 2)]))
           (\<lambda>key columns. Continue) example_ready_handle)) = [Some (PNum 1)] \<and>
   map rpc_level
     (requests_of
        (get_range_slices_callback example_levels
           (enum_closure_of example_ready_handle None
              (Some (EnumOptions (Some 2) None [(''consistencyLevel'', PNum 2)]))
              (\<lambda>key columns. Continue))
           None [example_row ''row1'' ''1'', example_row ''row2'' ''2''])) = [Some (PNum 1)] \<and>
   (\<exists>evs. enumerate_run example_levels
            (enum_closure_of example_ready_handle None
               (Some (EnumOptions (Some 2) None [(''consistencyLevel'', PNum 2)]))
               (\<lambda>key columns. Continue))
            [example_row ''row1'' ''1'', example_row ''row2'' ''2'']
            (range_request example_levels
               (enum_closure_of example_ready_handle None
                  (Some (EnumOptions (Some 2) None [(''consistencyLevel'', PNum 2)]))
                  (\<lambda>key columns. Continue)) [])
            [] = Some evs \<and>
          map rpc_level (requests_of evs) = [Some (PNum 1)])"
proof -
  let ?opts = "Some (EnumOptions (Some 2) None [(''consistencyLevel'', PNum 2)])"
  let ?e = "enum_closure_of example_ready_handle None ?opts (\<lambda>key columns. Continue)"
  let ?tbl = "[example_row ''row1'' ''1'', example_row ''row2'' ''2'']"
  let ?req = "Get_range_slices (ColumnParent ''Standard'' None)
           (SlicePredicate None
              (Some [(''consistencyLevel'', PNull), (''count'', PNum 100), (''finish'', PStr ''''),
                     (''reversed'', PBool False), (''start'', PStr '''')]))
           (KeyRange ''row2'' '''' 2) (PNum 1)"
  have h: "cf_ready example_ready_handle" by (simp add: example_ready_handle_def)
  have d: "defaultCL_read (client example_ready_handle) = PNum 2" by (simp add: example_defs)
  have one: "ONE example_levels = 1" by (simp add: example_levels_def)
  note t = enumerate_level_one [OF h, where CL = example_levels and cols = None and opts = ?opts
      and cb = "\<lambda>key columns. Continue" and error = None and rows = ?tbl and tbl = ?tbl,
      unfolded one]
  have pg: "requests_of (get_range_slices_callback example_levels ?e None ?tbl) = [?req]"
    unfolding example_page by simp
  note a1 = t [THEN conjunct1]
  note b2 = t [THEN conjunct2, THEN conjunct1, unfolded pg]
  have a2: "map rpc_level (requests_of (get_range_slices_callback example_levels ?e None ?tbl)) =
      [Some (PNum 1)]"
    unfolding pg using b2 by simp
  note b3 = t [THEN conjunct2, THEN conjunct2, THEN spec, THEN mp, OF example_run]
  have a3: "map rpc_level (requests_of
        [Row_callback ''row1'' [(''a'', ''1'')], Next_tick ?req,
         Row_callback ''row2'' [(''a'', ''2'')], Done_callback]) = [Some (PNum 1)]"
    using b3 by simp
  show ?thesis
    apply (intro conjI)
        apply (rule h)
       apply (rule d)
      apply (rule a1)
     apply (rule a2)
    apply (rule exI)
    apply (rule conjI)
     apply (rule example_run)
    apply (rule a3)
    done
qed

text \<open>
  C4, as the code has it. The published definitions lack the table \<open>Missing\<close>, the
  application listens to the client's \<open>error\<close> event, and a \<open>get\<close> is queued on the handle.
  The handle's listener emits the error and goes on: the handle is made ready, its queue
  is drained and the \<open>get\<close> is sent. (Lemma \<open>keyspaceSet_missing_drains\<close> has this for
  every handle and queue; without a listener the error is thrown and the handle stays as
  it was, lemma \<open>missing_table_without_listener\<close>.)
\<close>

theorem missing_table_handle_made_ready:
  "\<not> cf_ready (example_handle\<lparr>name := ''Missing''\<rparr>) \<and>
   map_of example_schema ''Missing'' = None \<and>
   error_listener (client (example_handle\<lparr>name := ''Missing''\<rparr>)) \<and>
   ColumnFamily_get (Key ''row1'') [] (Some 0) (example_handle\<lparr>name := ''Missing''\<rparr>) =
     example_handle\<lparr>name := ''Missing'', cf_queue := [Get (Key ''row1'') [] (Some 0)]\<rparr> \<and>
   (\<exists>cf'. ColumnFamily_on_keyspaceSet example_levels (Some example_schema)
            (example_handle\<lparr>name := ''Missing'', cf_queue := [Get (Key ''row1'') [] (Some 0)]\<rparr>) =
            Inr cf' \<and>
          cf_ready cf' \<and> cf_queue cf' = [] \<and>
          errors (client cf') = [''Column Family Missing does not exist.''] \<and>
          sent (client cf') =
            [Multiget_slice [''row1''] (ColumnParent ''Missing'' None)
               (SlicePredicate None (Some default_options)) (PNum 2) (Some 0)])"
proof -
  let ?cf = "example_handle\<lparr>name := ''Missing''\<rparr>"
  let ?q = "[Get (Key ''row1'') [] (Some 0)]"
  have h1: "\<not> cf_ready ?cf" by (simp add: example_handle_def)
  have h2: "map_of example_schema (name ?cf) = None" by (simp add: example_schema_def)
  have h2': "map_of example_schema ''Missing'' = None" by (simp add: example_schema_def)
  have h3: "error_listener (client ?cf)" by (simp add: example_defs)
  have g: "ColumnFamily_get (Key ''row1'') [] (Some 0) ?cf = ?cf\<lparr>cf_queue := ?q\<rparr>"
    by (simp add: ColumnFamily_get_def example_handle_def)
  have r: "map (ColumnFamily_request example_levels (made_ready ?cf [])) ?q =
             [Multiget_slice [''row1''] (ColumnParent ''Missing'' None)
               (SlicePredicate None (Some default_options)) (PNum 2) (Some 0)]"
    by (simp add: example_defs made_ready_def ColumnFamily_request_def cf_defs thrift_call_def
        method_args_def parseArgumentsForStandardCF_def js_or_def get_prop_def default_options_def)
  have e: "errors (client ?cf) @ [''Column Family '' @ name ?cf @ '' does not exist.''] =
             [''Column Family Missing does not exist.'']"
    by (simp add: example_defs)
  have e': "sent (client ?cf) = []"
    by (simp add: example_defs)
  note t = keyspaceSet_missing_drains [OF h1 h2 h3, of example_levels ?q, unfolded r e e']
  have ex: "\<exists>cf'. ColumnFamily_on_keyspaceSet example_levels (Some example_schema)
            (?cf\<lparr>cf_queue := ?q\<rparr>) = Inr cf' \<and>
          cf_ready cf' \<and> cf_queue cf' = [] \<and>
          errors (client cf') = [''Column Family Missing does not exist.''] \<and>
          sent (client cf') =
            [Multiget_slice [''row1''] (ColumnParent ''Missing'' None)
               (SlicePredicate None (Some default_options)) (PNum 2) (Some 0)]"
    apply (rule exI)
    apply (rule conjI)
     apply (rule t)
    apply (simp add: made_ready_def)
    done
  from h1 h2' h3 g ex show ?thesis by blast
qed

text \<open>
  C2, as the code has it for a stride of one. The table has one row. The first page holds
  that row in its last slot, so the row is not handed to the per-row callback and the next
  page is asked for from its key; that page is the same page, and so on: the enumeration
  never ends, no row is delivered and the completion callback is never called. (Lemma
  \<open>stride_one_diverges\<close> has this for every one-row table.)
\<close>

theorem enumerate_stride_one:
  "get_range_slices_callback example_levels
     (enum_closure_of example_ready_handle None (Some (EnumOptions (Some 1) None []))
        (\<lambda>key columns. Continue))
     None
     (get_range_slices [example_row ''row1'' ''1'']
        (range_request example_levels
           (enum_closure_of example_ready_handle None (Some (EnumOptions (Some 1) None []))
              (\<lambda>key columns. Continue)) [])) =
     [Next_tick
        (range_request example_levels
           (enum_closure_of example_ready_handle None (Some (EnumOptions (Some 1) None []))
              (\<lambda>key columns. Continue)) ''row1'')] \<and>
   get_range_slices_callback example_levels
     (enum_closure_of example_ready_handle None (Some (EnumOptions (Some 1) None []))
        (\<lambda>key columns. Continue))
     None
     (get_range_slices [example_row ''row1'' ''1'']
        (range_request example_levels
           (enum_closure_of example_ready_handle None (Some (EnumOptions (Some 1) None []))
              (\<lambda>key columns. Continue)) ''row1'')) =
     [Next_tick
        (range_request example_levels
           (enum_closure_of example_ready_handle None (Some (EnumOptions (Some 1) None []))
              (\<lambda>key columns. Continue)) ''row1'')] \<and>
   enumerate_run example_levels
     (enum_closure_of example_ready_handle None (Some (EnumOptions (Some 1) None []))
        (\<lambda>key columns. Continue))
     [example_row ''row1'' ''1'']
     (range_request example_levels
        (enum_closure_of example_ready_handle None (Some (EnumOptions (Some 1) None []))
           (\<lambda>key columns. Continue)) [])
     [] = None"
proof -
  let ?e = "enum_closure_of example_ready_handle None (Some (EnumOptions (Some 1) None []))
              (\<lambda>key columns. Continue)"
  let ?r = "example_row ''row1'' ''1''"
  have s: "e_stride ?e = 1" by (simp add: enum_closure_of_def)
  have k: "ks_key ?r \<noteq> []" and k': "ks_key ?r = ''row1''" by (simp_all add: example_row_def)
  note p1 = stride_one_page [OF s k, of "[]" example_levels, unfolded k']
  note p2 = stride_one_page [OF s k, of "''row1''" example_levels, unfolded k']
  note dv = stride_one_diverges [OF s k, of example_levels "[]"]
  from p1 p2 dv k' show ?thesis by simp
qed

end
